theory Spec2Isabelle
  imports Complex_Main "HOL-Library.Char_ord" "HOL-Library.List_Lexorder"
    "HOL-Library.Product_Lexorder" "HOL-Library.Multiset"
begin

section \<open>Rail/bus gap analysis (hot\_zones.py)\<close>

text \<open>
  A shallow embedding of \<^verbatim>\<open>src/data/csv_format/hot_zones.py\<close>. Python's \<^verbatim>\<open>float\<close>
  is modelled by \<^typ>\<open>real\<close> (no rounding error, no NaN; a missing value is \<open>None\<close>),
  Python's \<^verbatim>\<open>str\<close> by \<^typ>\<open>string\<close> restricted to ASCII text: the character
  classes below (\<open>isspace\<close>, \<open>isalnum\<close>, \<open>lower\<close>) are Python's on code points below 128,
  and every other character is treated as a caseless symbol.
\<close>

subsection \<open>Python string helpers\<close>

definition isspace :: "char \<Rightarrow> bool" where
  \<comment> \<open>\<^verbatim>\<open>str.isspace\<close> on one ASCII character: TAB, LF, VT, FF, CR, FS, GS, RS, US, SPACE.\<close>
  "isspace c \<longleftrightarrow> c \<in> set [CHR 0x09, CHR 0x0A, CHR 0x0B, CHR 0x0C, CHR 0x0D,
                             CHR 0x1C, CHR 0x1D, CHR 0x1E, CHR 0x1F, CHR 0x20]"

definition isalnum :: "char \<Rightarrow> bool" where
  "isalnum c \<longleftrightarrow> c \<in> set (''abcdefghijklmnopqrstuvwxyz'' @ ''ABCDEFGHIJKLMNOPQRSTUVWXYZ''
                             @ ''0123456789'')"

definition lower_char :: "char \<Rightarrow> char" where
  "lower_char c =
     (case map_of (zip ''ABCDEFGHIJKLMNOPQRSTUVWXYZ'' ''abcdefghijklmnopqrstuvwxyz'') c of
        Some d \<Rightarrow> d
      | None \<Rightarrow> c)"

definition lower :: "string \<Rightarrow> string" where
  "lower s = map lower_char s"

definition strip :: "string \<Rightarrow> string" where
  "strip s = rev (dropWhile isspace (rev (dropWhile isspace s)))"

definition remove_char :: "char \<Rightarrow> string \<Rightarrow> string" where
  \<comment> \<open>\<^verbatim>\<open>s.replace(c, '')\<close> for a one-character \<open>c\<close>.\<close>
  "remove_char c s = filter (\<lambda>d. d \<noteq> c) s"

fun startswith :: "string \<Rightarrow> string \<Rightarrow> bool" where
  "startswith s [] = True"
| "startswith [] (p # ps) = False"
| "startswith (c # cs) (p # ps) = (c = p \<and> startswith cs ps)"

fun str_contains :: "string \<Rightarrow> string \<Rightarrow> bool" where
  \<comment> \<open>\<^verbatim>\<open>sub in s\<close>.\<close>
  "str_contains [] sub = (sub = [])"
| "str_contains (c # cs) sub = (startswith (c # cs) sub \<or> str_contains cs sub)"

subsection \<open>Column resolution: \<^verbatim>\<open>find_best_column\<close>\<close>

definition norm_key :: "string \<Rightarrow> string" where
  \<comment> \<open>\<^verbatim>\<open>c.strip().lower().replace(' ', '').replace('-', '').replace('_', '')\<close>\<close>
  "norm_key c = remove_char CHR ''_'' (remove_char CHR ''-'' (remove_char CHR '' '' (lower (strip c))))"

fun build_norm_map :: "(string \<rightharpoonup> string) \<Rightarrow> string list \<Rightarrow> (string \<rightharpoonup> string)" where
  \<comment> \<open>the loop \<^verbatim>\<open>for c in df_cols: norm_map[key] = c\<close>; a later column overwrites an earlier one.\<close>
  "build_norm_map m [] = m"
| "build_norm_map m (c # cs) = build_norm_map (m(norm_key c \<mapsto> c)) cs"

fun exact_pass :: "(string \<rightharpoonup> string) \<Rightarrow> string list \<Rightarrow> string option" where
  "exact_pass norm_map [] = None"
| "exact_pass norm_map (cand # cands) =
     (case norm_map (norm_key cand) of
        Some c \<Rightarrow> Some c
      | None \<Rightarrow> exact_pass norm_map cands)"

fun contains_inner :: "string \<Rightarrow> string list \<Rightarrow> string option" where
  "contains_inner cand [] = None"
| "contains_inner cand (c # cs) =
     (if str_contains (lower c) (lower cand) then Some c else contains_inner cand cs)"

fun contains_pass :: "string list \<Rightarrow> string list \<Rightarrow> string option" where
  "contains_pass df_cols [] = None"
| "contains_pass df_cols (cand # cands) =
     (case contains_inner cand df_cols of
        Some c \<Rightarrow> Some c
      | None \<Rightarrow> contains_pass df_cols cands)"

definition find_best_column :: "string list \<Rightarrow> string list \<Rightarrow> string option" where
  "find_best_column df_cols candidates =
     (case exact_pass (build_norm_map Map.empty df_cols) candidates of
        Some c \<Rightarrow> Some c
      | None \<Rightarrow> contains_pass df_cols candidates)"

text \<open>The two ways a candidate can match a table's columns.\<close>

definition exact_match :: "string list \<Rightarrow> string \<Rightarrow> bool" where
  "exact_match cols cand \<longleftrightarrow> (\<exists>c\<in>set cols. norm_key c = norm_key cand)"

definition substring_match :: "string list \<Rightarrow> string \<Rightarrow> bool" where
  "substring_match cols cand \<longleftrightarrow> (\<exists>c\<in>set cols. str_contains (lower c) (lower cand))"

subsection \<open>Tables\<close>

text \<open>
  A cell of a table: pandas reads an empty CSV field as NaN, a numeric field as a number and
  anything else as a string; \<open>Stamp\<close> is a timestamp made by \<^verbatim>\<open>pd.to_datetime\<close>, whose \<^verbatim>\<open>NaT\<close>
  is \<open>Missing\<close>. Cells are ordered so that group keys can be sorted.
\<close>

datatype cell = Missing | Num real | Text string | Stamp real

instantiation cell :: linorder
begin

fun less_eq_cell :: "cell \<Rightarrow> cell \<Rightarrow> bool" where
  "less_eq_cell Missing y = True"
| "less_eq_cell (Num a) Missing = False"
| "less_eq_cell (Num a) (Num b) = (a \<le> b)"
| "less_eq_cell (Num a) y = True"
| "less_eq_cell (Text s) (Text t) = (s \<le> t)"
| "less_eq_cell (Text s) (Stamp b) = True"
| "less_eq_cell (Text s) y = False"
| "less_eq_cell (Stamp a) (Stamp b) = (a \<le> b)"
| "less_eq_cell (Stamp a) y = False"

definition less_cell :: "cell \<Rightarrow> cell \<Rightarrow> bool" where
  "less_cell x y \<longleftrightarrow> x \<le> y \<and> \<not> y \<le> x"

instance
proof
  fix x y z :: cell
  show "(x < y) = (x \<le> y \<and> \<not> y \<le> x)" by (rule less_cell_def)
  show "x \<le> x" by (cases x) simp_all
  show "x \<le> y \<Longrightarrow> y \<le> z \<Longrightarrow> x \<le> z" by (cases x; cases y; cases z) simp_all
  show "x \<le> y \<Longrightarrow> y \<le> x \<Longrightarrow> x = y" by (cases x; cases y) simp_all
  show "x \<le> y \<or> y \<le> x" by (cases x; cases y) auto
qed

end

text \<open>
  The bus table after the script's cleaning step (rows without numeric \<^verbatim>\<open>LAT\<close>/\<^verbatim>\<open>LON\<close> are
  dropped there): \<open>LAT\<close> and \<open>LON\<close> are numbers, the other three columns may be missing.
\<close>

record bus_row =
  STOP :: "string option"
  LAT :: real
  LON :: real
  SUM_PASSENGERS_ON :: "real option"
  ROUTE_NAME :: "string option"

text \<open>One row of \<^verbatim>\<open>rail_usage\<close>: the multi-year average of a station and its name.\<close>

record rail_usage_row =
  USAGE_STOP_ID :: cell
  AVG_BOARDINGS :: real
  USAGE_STATION_NAME :: string

text \<open>One row of \<^verbatim>\<open>bus_stop_agg\<close> (the bus table grouped by stop name).\<close>

record bus_stop_agg_row =
  AGG_STOP :: string
  AGG_LAT :: real
  AGG_LON :: real
  AGG_SUM_PASSENGERS_ON :: real

text \<open>One entry of \<^verbatim>\<open>rail_locations\<close>.\<close>

record rail_location =
  STOP_ID :: cell
  STATION_NAME :: string
  RAIL_BOARDINGS :: real
  RAIL_LAT :: real
  RAIL_LON :: real
  MATCHED_STOP :: string
  MATCH_SCORE :: real

text \<open>One row of \<^verbatim>\<open>bus_hotspots\<close>.\<close>

record hotspot =
  LAT_R :: real
  LON_R :: real
  HOT_SUM_PASSENGERS_ON :: real
  REP_STOP :: "string option"
  ROUTES :: string

text \<open>
  One entry of \<^verbatim>\<open>potential_stations\<close>. \<open>Nearest_Rail\<close> and \<open>Distance_Miles\<close> are Python
  values that may be \<^verbatim>\<open>None\<close>.
\<close>

record candidate =
  Name :: "string option"
  Lat :: real
  Lon :: real
  Bus_Boardings :: real
  Nearest_Rail :: "string option"
  Distance_Miles :: "real option"
  Routes :: string

text \<open>\<^verbatim>\<open>round(x, 2)\<close> and \<^verbatim>\<open>Series.round(4)\<close>: to the nearest multiple, a tie to the even one.\<close>

definition rint :: "real \<Rightarrow> int" where
  "rint y = (let f = \<lfloor>y\<rfloor>; r = y - of_int f
             in if r < 1 / 2 then f else if 1 / 2 < r then f + 1
                else if even f then f else f + 1)"

definition py_round :: "real \<Rightarrow> nat \<Rightarrow> real" where
  "py_round x ndigits = of_int (rint (x * 10 ^ ndigits)) / 10 ^ ndigits"

subsection \<open>String similarity: \<^verbatim>\<open>difflib.SequenceMatcher\<close>\<close>

text \<open>
  \<^verbatim>\<open>similar(a, b)\<close> is \<^verbatim>\<open>SequenceMatcher(None, a.lower(), b.lower()).ratio()\<close>. The matcher
  is Python's standard library, modelled here as CPython implements it, with no junk
  function and the default \<^verbatim>\<open>autojunk=True\<close>: \<^verbatim>\<open>b2j\<close> maps a character to its positions in
  \<open>b\<close>, and when \<open>b\<close> has 200 characters or more, the characters that fill more than
  one percent of it (plus one) are dropped from \<^verbatim>\<open>b2j\<close>.
\<close>

definition indices_of :: "string \<Rightarrow> char \<Rightarrow> nat list" where
  "indices_of b elt = map fst (filter (\<lambda>(j, c). c = elt) (enumerate 0 b))"

definition popular :: "string \<Rightarrow> char \<Rightarrow> bool" where
  "popular b elt \<longleftrightarrow> 200 \<le> length b \<and> length b div 100 + 1 < length (indices_of b elt)"

definition b2j :: "string \<Rightarrow> char \<Rightarrow> nat list" where
  \<comment> \<open>\<^verbatim>\<open>b2j.get(elt, [])\<close>\<close>
  "b2j b elt = (if popular b elt then [] else indices_of b elt)"

definition j2len_get :: "(nat \<rightharpoonup> nat) \<Rightarrow> nat \<Rightarrow> nat" where
  \<comment> \<open>\<^verbatim>\<open>j2len.get(j-1, 0)\<close>; for \<open>j = 0\<close> the key is \<open>-1\<close>, never present\<close>
  "j2len_get j2len j = (if j = 0 then 0 else case j2len (j - 1) of Some v \<Rightarrow> v | None \<Rightarrow> 0)"

fun inner_loop :: "(nat \<rightharpoonup> nat) \<Rightarrow> nat \<Rightarrow> nat \<Rightarrow> nat \<Rightarrow> nat list
    \<Rightarrow> (nat \<rightharpoonup> nat) \<times> nat \<times> nat \<times> nat \<Rightarrow> (nat \<rightharpoonup> nat) \<times> nat \<times> nat \<times> nat" where
  \<comment> \<open>\<^verbatim>\<open>for j in b2j.get(a[i], nothing)\<close>, on the state \<^verbatim>\<open>(newj2len, besti, bestj, bestsize)\<close>\<close>
  "inner_loop j2len i blo bhi [] st = st"
| "inner_loop j2len i blo bhi (j # js) (newj2len, besti, bestj, bestsize) =
     (if j < blo then inner_loop j2len i blo bhi js (newj2len, besti, bestj, bestsize)
      else if bhi \<le> j then (newj2len, besti, bestj, bestsize)
      else
        let k = j2len_get j2len j + 1
        in if bestsize < k
           then inner_loop j2len i blo bhi js (newj2len(j \<mapsto> k), i + 1 - k, j + 1 - k, k)
           else inner_loop j2len i blo bhi js (newj2len(j \<mapsto> k), besti, bestj, bestsize))"

fun outer_loop :: "string \<Rightarrow> string \<Rightarrow> nat \<Rightarrow> nat \<Rightarrow> nat list
    \<Rightarrow> (nat \<rightharpoonup> nat) \<times> nat \<times> nat \<times> nat \<Rightarrow> nat \<times> nat \<times> nat" where
  \<comment> \<open>\<^verbatim>\<open>for i in range(alo, ahi)\<close>, on the state \<^verbatim>\<open>(j2len, besti, bestj, bestsize)\<close>\<close>
  "outer_loop a b blo bhi [] (j2len, best) = best"
| "outer_loop a b blo bhi (i # is) (j2len, best) =
     (case inner_loop j2len i blo bhi (b2j b (a ! i)) (Map.empty, best) of
        (newj2len, best') \<Rightarrow> outer_loop a b blo bhi is (newj2len, best'))"

function extend_left :: "string \<Rightarrow> string \<Rightarrow> nat \<Rightarrow> nat \<Rightarrow> nat \<times> nat \<times> nat \<Rightarrow> nat \<times> nat \<times> nat" where
  \<comment> \<open>the first \<^verbatim>\<open>while\<close> after the loop; no character is junk\<close>
  "extend_left a b alo blo (besti, bestj, bestsize) =
     (if alo < besti \<and> blo < bestj \<and> a ! (besti - 1) = b ! (bestj - 1)
      then extend_left a b alo blo (besti - 1, bestj - 1, bestsize + 1)
      else (besti, bestj, bestsize))"
  by pat_completeness auto
termination
  by (relation "measure (\<lambda>(a, b, alo, blo, besti, bestj, bestsize). besti)") auto

declare extend_left.simps [simp del]

function extend_right :: "string \<Rightarrow> string \<Rightarrow> nat \<Rightarrow> nat \<Rightarrow> nat \<times> nat \<times> nat \<Rightarrow> nat \<times> nat \<times> nat" where
  \<comment> \<open>the second \<^verbatim>\<open>while\<close>; the two loops over junk characters never run\<close>
  "extend_right a b ahi bhi (besti, bestj, bestsize) =
     (if besti + bestsize < ahi \<and> bestj + bestsize < bhi
         \<and> a ! (besti + bestsize) = b ! (bestj + bestsize)
      then extend_right a b ahi bhi (besti, bestj, bestsize + 1)
      else (besti, bestj, bestsize))"
  by pat_completeness auto
termination
  by (relation "measure (\<lambda>(a, b, ahi, bhi, besti, bestj, bestsize). ahi - (besti + bestsize))") auto

declare extend_right.simps [simp del]

definition find_longest_match :: "string \<Rightarrow> string \<Rightarrow> nat \<times> nat \<times> nat \<times> nat \<Rightarrow> nat \<times> nat \<times> nat" where
  "find_longest_match a b r =
     (case r of (alo, ahi, blo, bhi) \<Rightarrow>
        extend_right a b ahi bhi
          (extend_left a b alo blo
             (outer_loop a b blo bhi [alo ..< ahi] (Map.empty, alo, blo, 0))))"

definition next_regions :: "nat \<times> nat \<times> nat \<times> nat \<Rightarrow> nat \<times> nat \<times> nat
    \<Rightarrow> (nat \<times> nat \<times> nat \<times> nat) list" where
  \<comment> \<open>the regions left and right of a match that \<^verbatim>\<open>get_matching_blocks\<close> appends to its
      queue; the queue is kept here with its last element first, as \<^verbatim>\<open>queue.pop()\<close> takes it\<close>
  "next_regions r x =
     (case (r, x) of ((alo, ahi, blo, bhi), (i, j, k)) \<Rightarrow>
        (if i + k < ahi \<and> j + k < bhi then [(i + k, ahi, j + k, bhi)] else [])
        @ (if alo < i \<and> blo < j then [(alo, i, blo, j)] else []))"

definition block_size :: "nat \<times> nat \<times> nat \<Rightarrow> nat" where
  "block_size x = (case x of (i, j, k) \<Rightarrow> k)"

definition region_weight :: "nat \<times> nat \<times> nat \<times> nat \<Rightarrow> nat" where
  "region_weight r = (case r of (alo, ahi, blo, bhi) \<Rightarrow> 2 * (ahi - alo) + 1)"

text \<open>
  A match lies inside its region (needed already for the termination of the queue loop):
  \<open>row_ok\<close> bounds the lengths recorded in a row of \<^verbatim>\<open>j2len\<close>, \<open>best_ok\<close> the best match.
\<close>

definition row_ok :: "nat \<Rightarrow> nat \<Rightarrow> (nat \<rightharpoonup> nat) \<Rightarrow> bool" where
  "row_ok blo n m \<longleftrightarrow> (\<forall>j v. m j = Some v \<longrightarrow> v \<le> n \<and> v \<le> j + 1 - blo \<and> blo \<le> j)"

definition best_ok :: "nat \<times> nat \<times> nat \<times> nat \<Rightarrow> nat \<times> nat \<times> nat \<Rightarrow> bool" where
  "best_ok r x \<longleftrightarrow>
     (case (r, x) of ((alo, ahi, blo, bhi), (i, j, k)) \<Rightarrow>
        alo \<le> i \<and> blo \<le> j \<and> (k = 0 \<and> i = alo \<and> j = blo \<or> i + k \<le> ahi \<and> j + k \<le> bhi))"

lemma j2len_get_le:
  assumes "row_ok blo n j2len" "blo \<le> j"
  shows "j2len_get j2len j \<le> n" and "j2len_get j2len j \<le> j - blo"
proof -
  show "j2len_get j2len j \<le> n"
    using assms(1) unfolding j2len_get_def row_ok_def by (auto split: option.splits)
  show "j2len_get j2len j \<le> j - blo"
  proof (cases "j = 0 \<or> j2len (j - 1) = None")
    case True
    then show ?thesis by (auto simp: j2len_get_def)
  next
    case False
    then obtain v where v: "j2len (j - 1) = Some v" and j: "j \<noteq> 0" by auto
    then have "v \<le> (j - 1) + 1 - blo" using assms(1) unfolding row_ok_def by blast
    then show ?thesis using v j by (simp add: j2len_get_def)
  qed
qed

lemma inner_loop_ok:
  assumes "row_ok blo (i - alo) j2len" "alo \<le> i" "i < ahi"
  shows "row_ok blo (i + 1 - alo) newj2len \<Longrightarrow> best_ok (alo, ahi, blo, bhi) best
     \<Longrightarrow> (case inner_loop j2len i blo bhi js (newj2len, best) of
           (m, best') \<Rightarrow> row_ok blo (i + 1 - alo) m \<and> best_ok (alo, ahi, blo, bhi) best')"
proof (induction js arbitrary: newj2len best)
  case Nil
  then show ?case by simp
next
  case (Cons j js)
  obtain besti bestj bestsize where best: "best = (besti, bestj, bestsize)" by (cases best)
  show ?case
  proof (cases "j < blo \<or> bhi \<le> j")
    case True
    then show ?thesis using Cons by (auto simp: best)
  next
    case False
    then have j: "blo \<le> j" "j < bhi" by auto
    define k where "k = j2len_get j2len j + 1"
    have k0: "k \<noteq> 0" by (simp add: k_def)
    have k1: "k \<le> i + 1 - alo"
      using j2len_get_le(1) [OF assms(1) j(1)] assms(2) by (simp add: k_def)
    have k2: "k \<le> j + 1 - blo"
      using j2len_get_le(2) [OF assms(1) j(1)] j(1) by (simp add: k_def)
    have row: "row_ok blo (i + 1 - alo) (newj2len(j \<mapsto> k))"
      using Cons.prems(1) k1 k2 j unfolding row_ok_def by auto
    have new: "best_ok (alo, ahi, blo, bhi) (i + 1 - k, j + 1 - k, k)"
      using k0 k1 k2 j assms(2,3) by (auto simp: best_ok_def)
    show ?thesis
    proof (cases "bestsize < k")
      case True
      have eq: "inner_loop j2len i blo bhi (j # js) (newj2len, best)
          = inner_loop j2len i blo bhi js (newj2len(j \<mapsto> k), i + 1 - k, j + 1 - k, k)"
        using True j by (simp add: best k_def Let_def)
      show ?thesis unfolding eq by (rule Cons.IH [OF row new])
    next
      case False
      have eq: "inner_loop j2len i blo bhi (j # js) (newj2len, best)
          = inner_loop j2len i blo bhi js (newj2len(j \<mapsto> k), best)"
        using False j by (simp add: best k_def Let_def)
      show ?thesis unfolding eq by (rule Cons.IH [OF row Cons.prems(2)])
    qed
  qed
qed

lemma outer_loop_ok:
  "row_ok blo (i - alo) j2len \<Longrightarrow> best_ok (alo, ahi, blo, bhi) best \<Longrightarrow> alo \<le> i
     \<Longrightarrow> best_ok (alo, ahi, blo, bhi) (outer_loop a b blo bhi [i ..< ahi] (j2len, best))"
proof (induction "ahi - i" arbitrary: i j2len best)
  case 0
  then show ?case by simp
next
  case (Suc n)
  then have i: "i < ahi" by simp
  obtain m best' where step:
    "inner_loop j2len i blo bhi (b2j b (a ! i)) (Map.empty, best) = (m, best')"
    by (cases "inner_loop j2len i blo bhi (b2j b (a ! i)) (Map.empty, best)")
  have e: "row_ok blo (i + 1 - alo) Map.empty" by (simp add: row_ok_def)
  have "case inner_loop j2len i blo bhi (b2j b (a ! i)) (Map.empty, best) of
           (m, best') \<Rightarrow> row_ok blo (i + 1 - alo) m \<and> best_ok (alo, ahi, blo, bhi) best'"
    by (rule inner_loop_ok [OF Suc.prems(1) Suc.prems(3) i e Suc.prems(2)])
  then have ok: "row_ok blo (Suc i - alo) m" "best_ok (alo, ahi, blo, bhi) best'"
    by (simp_all add: step)
  have n: "n = ahi - Suc i" using Suc.hyps(2) by simp
  have "best_ok (alo, ahi, blo, bhi) (outer_loop a b blo bhi [Suc i ..< ahi] (m, best'))"
    using Suc.hyps(1) [OF n ok] Suc.prems(3) by simp
  then show ?case using i step by (simp add: upt_conv_Cons)
qed

lemma extend_left_ok:
  "best_ok (alo, ahi, blo, bhi) x \<Longrightarrow> best_ok (alo, ahi, blo, bhi) (extend_left a b alo blo x)"
proof (induction a b alo blo x rule: extend_left.induct)
  case (1 a b alo blo besti bestj bestsize)
  show ?case
  proof (cases "alo < besti \<and> blo < bestj \<and> a ! (besti - 1) = b ! (bestj - 1)")
    case True
    have "best_ok (alo, ahi, blo, bhi) (besti - 1, bestj - 1, bestsize + 1)"
      using "1.prems" True by (auto simp: best_ok_def)
    then have "best_ok (alo, ahi, blo, bhi)
        (extend_left a b alo blo (besti - 1, bestj - 1, bestsize + 1))"
      by (rule "1.IH" [OF True])
    then show ?thesis using True by (subst extend_left.simps) simp
  next
    case False
    then show ?thesis using "1.prems" by (subst extend_left.simps) auto
  qed
qed

lemma extend_right_ok:
  "best_ok (alo, ahi, blo, bhi) x \<Longrightarrow> best_ok (alo, ahi, blo, bhi) (extend_right a b ahi bhi x)"
proof (induction a b ahi bhi x rule: extend_right.induct)
  case (1 a b ahi bhi besti bestj bestsize)
  show ?case
  proof (cases "besti + bestsize < ahi \<and> bestj + bestsize < bhi
         \<and> a ! (besti + bestsize) = b ! (bestj + bestsize)")
    case True
    have "best_ok (alo, ahi, blo, bhi) (besti, bestj, bestsize + 1)"
      using "1.prems" True by (auto simp: best_ok_def)
    then have "best_ok (alo, ahi, blo, bhi) (extend_right a b ahi bhi (besti, bestj, bestsize + 1))"
      by (rule "1.IH" [OF True])
    then show ?thesis using True by (subst extend_right.simps) simp
  next
    case False
    then show ?thesis using "1.prems" by (subst extend_right.simps) auto
  qed
qed

lemma find_longest_match_ok: "best_ok r (find_longest_match a b r)"
proof -
  obtain alo ahi blo bhi where r: "r = (alo, ahi, blo, bhi)" by (cases r)
  have "row_ok blo (alo - alo) Map.empty" by (simp add: row_ok_def)
  moreover have "best_ok (alo, ahi, blo, bhi) (alo, blo, 0)" by (simp add: best_ok_def)
  ultimately have "best_ok (alo, ahi, blo, bhi)
      (outer_loop a b blo bhi [alo ..< ahi] (Map.empty, alo, blo, 0))"
    by (rule outer_loop_ok) simp
  then show ?thesis
    unfolding r find_longest_match_def by (simp add: extend_left_ok extend_right_ok)
qed

lemma next_regions_weight:
  assumes "best_ok r x" "block_size x \<noteq> 0"
  shows "sum_list (map region_weight (next_regions r x)) < region_weight r"
proof -
  obtain alo ahi blo bhi where r: "r = (alo, ahi, blo, bhi)" by (cases r)
  obtain i j k where x: "x = (i, j, k)" by (cases x)
  have "alo \<le> i" "i + k \<le> ahi" "k \<noteq> 0"
    using assms by (auto simp: best_ok_def block_size_def r x)
  then show ?thesis by (auto simp: next_regions_def region_weight_def r x)
qed

function matching_blocks_loop :: "string \<Rightarrow> string \<Rightarrow> (nat \<times> nat \<times> nat \<times> nat) list
    \<Rightarrow> (nat \<times> nat \<times> nat) list \<Rightarrow> (nat \<times> nat \<times> nat) list" where
  \<comment> \<open>\<^verbatim>\<open>while queue:\<close> of \<^verbatim>\<open>get_matching_blocks\<close>, on \<^verbatim>\<open>(queue, matching_blocks)\<close>\<close>
  "matching_blocks_loop a b [] blocks = blocks"
| "matching_blocks_loop a b (r # queue) blocks =
     (if block_size (find_longest_match a b r) \<noteq> 0
      then matching_blocks_loop a b (next_regions r (find_longest_match a b r) @ queue)
             (blocks @ [find_longest_match a b r])
      else matching_blocks_loop a b queue blocks)"
  by pat_completeness auto
termination
proof (relation "measure (\<lambda>(a, b, queue, blocks). sum_list (map region_weight queue))")
  show "wf (measure (\<lambda>(a, b, queue, blocks). sum_list (map region_weight queue)))" by simp
next
  fix a b r queue and blocks :: "(nat \<times> nat \<times> nat) list"
  assume "block_size (find_longest_match a b r) \<noteq> 0"
  then have "sum_list (map region_weight (next_regions r (find_longest_match a b r)))
      < region_weight r"
    by (rule next_regions_weight [OF find_longest_match_ok])
  then show "((a, b, next_regions r (find_longest_match a b r) @ queue,
                blocks @ [find_longest_match a b r]), (a, b, r # queue, blocks))
      \<in> measure (\<lambda>(a, b, queue, blocks). sum_list (map region_weight queue))"
    by simp
next
  fix a b r queue and blocks :: "(nat \<times> nat \<times> nat) list"
  show "((a, b, queue, blocks), (a, b, r # queue, blocks))
      \<in> measure (\<lambda>(a, b, queue, blocks). sum_list (map region_weight queue))"
    by (simp add: region_weight_def split: prod.splits)
qed

declare matching_blocks_loop.simps [simp del]

definition ratio :: "string \<Rightarrow> string \<Rightarrow> real" where
  \<comment> \<open>\<^verbatim>\<open>ratio()\<close>: \<^verbatim>\<open>get_matching_blocks\<close> also sorts the blocks, merges adjacent ones and adds
      an empty block at the end, none of which changes the sum of their sizes\<close>
  "ratio a b =
     (let matches = sum_list (map block_size
            (matching_blocks_loop a b [(0, length a, 0, length b)] []));
          len = length a + length b
      in if len \<noteq> 0 then 2 * real matches / real len else 1)"

definition similar :: "string \<Rightarrow> string \<Rightarrow> real" where
  "similar a b = ratio (lower a) (lower b)"

text \<open>The most characters a region can still contribute to the matches.\<close>

definition region_cap :: "nat \<times> nat \<times> nat \<times> nat \<Rightarrow> nat" where
  "region_cap r = (case r of (alo, ahi, blo, bhi) \<Rightarrow> min (ahi - alo) (bhi - blo))"

subsection \<open>pandas helpers\<close>

definition group_keys :: "'k::linorder list \<Rightarrow> 'k list" where
  \<comment> \<open>the keys of a \<^verbatim>\<open>groupby\<close> (default \<^verbatim>\<open>sort=True\<close>): the distinct keys, ascending\<close>
  "group_keys ks = sort (remdups ks)"

definition sum_skipna :: "real option list \<Rightarrow> real" where
  \<comment> \<open>\<^verbatim>\<open>sum\<close> skips missing values; an empty sum is 0\<close>
  "sum_skipna vs = sum_list (map (\<lambda>v. case v of None \<Rightarrow> 0 | Some x \<Rightarrow> x) vs)"

definition mean :: "real list \<Rightarrow> real" where
  \<comment> \<open>used on non-empty lists only\<close>
  "mean xs = sum_list xs / real (length xs)"

definition dropna :: "'a option list \<Rightarrow> 'a list" where
  "dropna vs = [v. Some v \<leftarrow> vs]"

definition mode_values :: "string list \<Rightarrow> string list" where
  \<comment> \<open>\<^verbatim>\<open>Series.mode()\<close> on present values: the most frequent values, sorted ascending\<close>
  "mode_values vs =
     (if vs = [] then []
      else let m = Max (set (map (count_list vs) vs))
           in sort (remdups (filter (\<lambda>v. count_list vs v = m) vs)))"

definition unique :: "'a list \<Rightarrow> 'a list" where
  \<comment> \<open>\<^verbatim>\<open>pd.unique\<close>: the distinct values in order of first appearance\<close>
  "unique xs = rev (remdups (rev xs))"

fun join :: "string \<Rightarrow> string list \<Rightarrow> string" where
  \<comment> \<open>\<^verbatim>\<open>sep.join(xs)\<close>\<close>
  "join sep [] = []"
| "join sep [x] = x"
| "join sep (x # y # ys) = x @ sep @ join sep (y # ys)"

subsection \<open>Bus hotspots\<close>

definition HOTSPOT_MIN_BOARDINGS :: real where
  "HOTSPOT_MIN_BOARDINGS = 100"

definition HOTSPOT_ROUND_DECIMALS :: nat where
  "HOTSPOT_ROUND_DECIMALS = 4"

definition round_key :: "bus_row \<Rightarrow> real \<times> real" where
  \<comment> \<open>the columns \<^verbatim>\<open>(LAT_R, LON_R)\<close> of a row\<close>
  "round_key r = (py_round (LAT r) HOTSPOT_ROUND_DECIMALS, py_round (LON r) HOTSPOT_ROUND_DECIMALS)"

definition cell_rows :: "bus_row list \<Rightarrow> real \<times> real \<Rightarrow> bus_row list" where
  \<comment> \<open>the rows of one group, in table order\<close>
  "cell_rows bus_df k = filter (\<lambda>r. round_key r = k) bus_df"

definition rep_stop :: "string option list \<Rightarrow> string option" where
  \<comment> \<open>\<^verbatim>\<open>x.mode().iat[0] if not x.mode().empty else x.iloc[0]\<close>; the mode is empty only when
      every value of the group is missing, and then \<^verbatim>\<open>x.iloc[0]\<close> is missing too\<close>
  "rep_stop x =
     (case mode_values (dropna x) of
        m # ms \<Rightarrow> Some m
      | [] \<Rightarrow> (case x of v # vs \<Rightarrow> v | [] \<Rightarrow> None))"

definition astype_str :: "string option \<Rightarrow> string" where
  "astype_str v = (case v of Some s \<Rightarrow> s | None \<Rightarrow> ''nan'')"

definition routes_label :: "string option list \<Rightarrow> string" where
  \<comment> \<open>\<^verbatim>\<open>', '.join(pd.unique(x.astype(str))[:5])\<close>\<close>
  "routes_label x = join '', '' (take 5 (unique (map astype_str x)))"

definition agg_cell :: "bus_row list \<Rightarrow> real \<times> real \<Rightarrow> hotspot" where
  "agg_cell bus_df k =
     (let g = cell_rows bus_df k
      in \<lparr> LAT_R = fst k, LON_R = snd k,
           HOT_SUM_PASSENGERS_ON = sum_skipna (map SUM_PASSENGERS_ON g),
           REP_STOP = rep_stop (map STOP g),
           ROUTES = routes_label (map ROUTE_NAME g) \<rparr>)"

definition agg :: "bus_row list \<Rightarrow> hotspot list" where
  \<comment> \<open>\<^verbatim>\<open>bus_df.groupby(['LAT_R', 'LON_R']).agg({...}).reset_index()\<close>\<close>
  "agg bus_df = map (agg_cell bus_df) (group_keys (map round_key bus_df))"

definition bus_hotspots :: "bus_row list \<Rightarrow> hotspot list" where
  "bus_hotspots bus_df = filter (\<lambda>h. HOTSPOT_MIN_BOARDINGS \<le> HOT_SUM_PASSENGERS_ON h) (agg bus_df)"

subsection \<open>Rail usage\<close>

text \<open>
  A rail table as \<^verbatim>\<open>pd.read_csv\<close> returns it: the column names and the rows, a row giving
  the cell of each column. What reading a file of \<^verbatim>\<open>RAIL_FILES\<close> can come to.
\<close>

record table =
  columns :: "string list"
  rows :: "(string \<Rightarrow> cell) list"

datatype read_result = NotFound | ReadError | Frame table

text \<open>
  The two library parsers the aggregation applies to strings, \<^verbatim>\<open>float(s)\<close> and
  \<^verbatim>\<open>pd.to_datetime(s, errors='coerce')\<close>, are arguments of the model; \<open>None\<close> is a string
  that does not parse.
\<close>

record parsers =
  str_to_float :: "string \<Rightarrow> real option"
  str_to_datetime :: "string \<Rightarrow> real option"

definition DATE_CANDIDATES :: "string list" where
  "DATE_CANDIDATES = [''svc_date'', ''svcdate'', ''date'', ''service_date'', ''day'']"

definition STOP_CANDIDATES :: "string list" where
  "STOP_CANDIDATES = [''stop_id'', ''stopid'', ''station_id'', ''stationid'', ''stop'']"

definition BOARD_CANDIDATES :: "string list" where
  "BOARD_CANDIDATES = [''avg_boardings'', ''avg_boarding'', ''avg_daily_boardings'', ''boardings'',
     ''daily_boardings'', ''avg_daily'']"

definition truthy :: "string option \<Rightarrow> string option" where
  \<comment> \<open>a resolved column name that passes Python's truth test: neither \<^verbatim>\<open>None\<close> nor empty\<close>
  "truthy c = (case c of None \<Rightarrow> None | Some s \<Rightarrow> if s = [] then None else Some s)"

definition to_datetime :: "parsers \<Rightarrow> cell \<Rightarrow> cell" where
  \<comment> \<open>a number is taken as nanoseconds since the epoch\<close>
  "to_datetime P c =
     (case c of
        Missing \<Rightarrow> Missing
      | Num x \<Rightarrow> Stamp x
      | Text s \<Rightarrow> (case str_to_datetime P s of Some t \<Rightarrow> Stamp t | None \<Rightarrow> Missing)
      | Stamp t \<Rightarrow> Stamp t)"

definition is_object :: "cell list \<Rightarrow> bool" where
  \<comment> \<open>\<^verbatim>\<open>dtype == object\<close>: the column holds a string\<close>
  "is_object cs = (\<exists>c\<in>set cs. case c of Text s \<Rightarrow> True | _ \<Rightarrow> False)"

definition cell_to_float :: "parsers \<Rightarrow> cell \<Rightarrow> real option" where
  \<comment> \<open>\<^verbatim>\<open>float(str(c).replace(',', ''))\<close>; the string of a number parses back to it\<close>
  "cell_to_float P c =
     (case c of
        Num x \<Rightarrow> Some x
      | Text s \<Rightarrow> str_to_float P (remove_char CHR '','' s)
      | _ \<Rightarrow> None)"

definition coerce_boardings :: "parsers \<Rightarrow> bool \<Rightarrow> cell list \<Rightarrow> real list option" where
  \<comment> \<open>the boardings column after lines 155-157, given whether its dtype is object; \<open>None\<close>
      is a column left non-numeric, because \<^verbatim>\<open>astype(float, errors='ignore')\<close> gave up\<close>
  "coerce_boardings P obj cs =
     (if obj
      then (if \<forall>c\<in>set cs. cell_to_float P c \<noteq> None
            then Some (map (\<lambda>c. the (cell_to_float P c)) cs) else None)
      else (if \<forall>c\<in>set cs. case c of Num x \<Rightarrow> True | _ \<Rightarrow> False
            then Some (map (\<lambda>c. case c of Num x \<Rightarrow> x | _ \<Rightarrow> 0) cs) else None))"

text \<open>
  What one table comes to: it is skipped for a missing column, or its aggregation raises
  inside the \<^verbatim>\<open>try\<close>, or it yields \<^verbatim>\<open>station_avg\<close>: the name of its stop column and one
  figure per stop.
\<close>

datatype skipped = MissingColumns | AggregationError

record station_avg =
  stop_column :: string
  figures :: "(cell \<times> real) list"

definition daily_totals :: "(cell \<times> cell \<times> real) list \<Rightarrow> ((cell \<times> cell) \<times> real) list" where
  \<comment> \<open>\<^verbatim>\<open>df.groupby([date_col, stop_col])[board_col].sum()\<close> on rows \<open>(date, stop, boardings)\<close>;
      a row whose date is \<^verbatim>\<open>NaT\<close> has a missing group key and is dropped\<close>
  "daily_totals rs =
     (let kept = filter (\<lambda>(d, s, b). d \<noteq> Missing) rs
      in map (\<lambda>k. (k, sum_list [b. (d, s, b) \<leftarrow> kept, (d, s) = k]))
           (group_keys (map (\<lambda>(d, s, b). (d, s)) kept)))"

definition stop_means :: "((cell \<times> cell) \<times> real) list \<Rightarrow> (cell \<times> real) list" where
  \<comment> \<open>\<^verbatim>\<open>daily.groupby(stop_col)[board_col].mean()\<close>\<close>
  "stop_means daily =
     map (\<lambda>s. (s, mean [t. ((d, s'), t) \<leftarrow> daily, s' = s]))
       (group_keys (map (\<lambda>((d, s), t). s) daily))"

definition synthetic_date :: "(string \<Rightarrow> cell) list \<Rightarrow> string \<times> (string \<Rightarrow> cell) list" where
  \<comment> \<open>\<^verbatim>\<open>df['_synthetic_date_'] = pd.NaT\<close>\<close>
  "synthetic_date rs = (''_synthetic_date_'', map (\<lambda>r. r(''_synthetic_date_'' := Missing)) rs)"

definition year_summary :: "parsers \<Rightarrow> table \<Rightarrow> skipped + station_avg" where
  "year_summary P df =
     (let df_cols = columns df;
          date_col = find_best_column df_cols DATE_CANDIDATES;
          stop_col = find_best_column df_cols STOP_CANDIDATES;
          board_col = find_best_column df_cols BOARD_CANDIDATES
      in case (truthy stop_col, truthy board_col) of
           (Some stop_c, Some board_c) \<Rightarrow>
             let (date_c, dated) =
                   (case truthy date_col of
                      Some c \<Rightarrow> (c, map (\<lambda>r. r(c := to_datetime P (r c))) (rows df))
                    | None \<Rightarrow> synthetic_date (rows df));
                 obj = is_object (map (\<lambda>r. r board_c) dated);
                 present = filter (\<lambda>r. r board_c \<noteq> Missing \<and> r stop_c \<noteq> Missing) dated
             in \<comment> \<open>one column in two roles: \<^verbatim>\<open>reset_index\<close> cannot insert it twice and raises\<close>
                if date_c = stop_c \<or> date_c = board_c \<or> stop_c = board_c then Inl AggregationError
                else
                  (case coerce_boardings P obj (map (\<lambda>r. r board_c) present) of
                     Some bs \<Rightarrow>
                       Inr \<lparr> stop_column = stop_c,
                             figures = stop_means (daily_totals
                               (zip (map (\<lambda>r. r date_c) present)
                                    (zip (map (\<lambda>r. r stop_c) present) bs))) \<rparr>
                   | None \<Rightarrow>
                       \<comment> \<open>the mean of a non-numeric column raises as soon as there is a group\<close>
                       if \<exists>r\<in>set present. r date_c \<noteq> Missing then Inl AggregationError
                       else Inr \<lparr> stop_column = stop_c, figures = [] \<rparr>)
         | _ \<Rightarrow> Inl MissingColumns)"

text \<open>
  The loop over \<^verbatim>\<open>RAIL_FILES\<close> on its state \<^verbatim>\<open>(found_any_rail, year_station_dfs)\<close>, the abort
  test after it and the combination of the yearly figures, which groups by the first
  column of the concatenated frames: the stop column of the first frame. Rows of a frame whose
  stop column has another name hold NaN there and drop out of the grouping.
\<close>

fun load_rail :: "parsers \<Rightarrow> read_result list \<Rightarrow> bool \<times> station_avg list
    \<Rightarrow> bool \<times> station_avg list" where
  "load_rail P [] st = st"
| "load_rail P (NotFound # fs) st = load_rail P fs st"
| "load_rail P (ReadError # fs) st = load_rail P fs st"
| "load_rail P (Frame df # fs) (found_any_rail, year_station_dfs) =
     (case year_summary P df of
        Inl why \<Rightarrow> load_rail P fs (True, year_station_dfs)
      | Inr station_avg \<Rightarrow> load_rail P fs (True, year_station_dfs @ [station_avg]))"

definition combine_years :: "station_avg list \<Rightarrow> (cell \<times> real) list" where
  "combine_years year_station_dfs =
     (case year_station_dfs of
        [] \<Rightarrow> []
      | first # others \<Rightarrow>
          let all_years = concat (map figures
                 (filter (\<lambda>d. stop_column d = stop_column first) year_station_dfs))
          in map (\<lambda>s. (s, mean [v. (s', v) \<leftarrow> all_years, s' = s])) (group_keys (map fst all_years)))"

datatype abort = NoUsableData

definition rail_usage :: "parsers \<Rightarrow> read_result list \<Rightarrow> abort + (cell \<times> real) list" where
  "rail_usage P files =
     (let (found_any_rail, year_station_dfs) = load_rail P files (False, [])
      in if \<not> found_any_rail \<or> year_station_dfs = [] then Inl NoUsableData
         else Inr (combine_years year_station_dfs))"

text \<open>
  Parsers for the examples: decimal literals (an optional sign, digits, an optional
  fraction), the part of Python's \<^verbatim>\<open>float\<close> syntax the examples use, and no date strings
  (the examples carry numeric dates).
\<close>

definition isdigit :: "char \<Rightarrow> bool" where
  "isdigit c \<longleftrightarrow> c \<in> set ''0123456789''"

definition digit_value :: "char \<Rightarrow> nat" where
  "digit_value c =
     (case map_of (zip ''0123456789'' [0, 1, 2, 3, 4, 5, 6, 7, 8, 9]) c of
        Some d \<Rightarrow> d
      | None \<Rightarrow> 0)"

definition digits_value :: "string \<Rightarrow> nat" where
  "digits_value ds = foldl (\<lambda>n c. 10 * n + digit_value c) 0 ds"

definition unsigned_decimal :: "string \<Rightarrow> real option" where
  "unsigned_decimal u =
     (let ip = takeWhile isdigit u; rest = dropWhile isdigit u
      in case rest of
           [] \<Rightarrow> if ip = [] then None else Some (real (digits_value ip))
         | c # fp \<Rightarrow>
             if c = CHR ''.'' \<and> list_all isdigit fp \<and> (ip \<noteq> [] \<or> fp \<noteq> [])
             then Some (real (digits_value ip) + real (digits_value fp) / 10 ^ length fp)
             else None)"

definition decimal_literal :: "string \<Rightarrow> real option" where
  "decimal_literal s =
     (case strip s of
        [] \<Rightarrow> None
      | c # cs \<Rightarrow>
          if c = CHR ''-'' then map_option uminus (unsigned_decimal cs)
          else if c = CHR ''+'' then unsigned_decimal cs
          else unsigned_decimal (c # cs))"

definition example_parsers :: parsers where
  "example_parsers = \<lparr> str_to_float = decimal_literal, str_to_datetime = (\<lambda>s. None) \<rparr>"

text \<open>The frame a file contributes to \<^verbatim>\<open>year_station_dfs\<close>, if any.\<close>

definition file_summary :: "parsers \<Rightarrow> read_result \<Rightarrow> station_avg option" where
  "file_summary P f =
     (case f of
        Frame df \<Rightarrow> (case year_summary P df of Inr station_avg \<Rightarrow> Some station_avg | Inl why \<Rightarrow> None)
      | _ \<Rightarrow> None)"

subsection \<open>Gap analysis\<close>

definition CANDIDATE_MIN_BOARDINGS :: real where
  "CANDIDATE_MIN_BOARDINGS = 500"

definition MIN_DISTANCE_MILES :: real where
  "MIN_DISTANCE_MILES = 1.0"

definition radians :: "real \<Rightarrow> real" where
  "radians x = x * pi / 180"

definition haversine_a :: "real \<Rightarrow> real \<Rightarrow> real \<Rightarrow> real \<Rightarrow> real" where
  \<comment> \<open>the quantity \<^verbatim>\<open>a\<close> of \<^verbatim>\<open>haversine_miles\<close>\<close>
  "haversine_a lon1 lat1 lon2 lat2 =
     (let lon1 = radians lon1; lat1 = radians lat1; lon2 = radians lon2; lat2 = radians lat2;
          dlon = lon2 - lon1;
          dlat = lat2 - lat1
      in (sin (dlat / 2))\<^sup>2 + cos lat1 * cos lat2 * (sin (dlon / 2))\<^sup>2)"

definition haversine_miles :: "real \<Rightarrow> real \<Rightarrow> real \<Rightarrow> real \<Rightarrow> real option" where
  \<comment> \<open>\<open>None\<close> is the \<^verbatim>\<open>ValueError\<close> of \<^verbatim>\<open>math.sqrt\<close> and \<^verbatim>\<open>math.asin\<close> outside their domains.\<close>
  "haversine_miles lon1 lat1 lon2 lat2 =
     (let a = haversine_a lon1 lat1 lon2 lat2
      in if a < 0 \<or> 1 < sqrt a then None
         else let c = 2 * arcsin (sqrt a); r = 3956 in Some (c * r))"

text \<open>\<^verbatim>\<open>min_dist\<close> starts as \<^verbatim>\<open>float('inf')\<close>.\<close>

datatype ext_float = Fin real | Inf

fun lt_ext :: "real \<Rightarrow> ext_float \<Rightarrow> bool" where
  "lt_ext d Inf = True"
| "lt_ext d (Fin m) = (d < m)"

fun gt_ext :: "ext_float \<Rightarrow> real \<Rightarrow> bool" where
  "gt_ext Inf x = True"
| "gt_ext (Fin m) x = (x < m)"

fun nearest_rail :: "real \<Rightarrow> real \<Rightarrow> rail_location list \<Rightarrow> ext_float \<times> string option
    \<Rightarrow> ext_float \<times> string option" where
  \<comment> \<open>the inner loop over \<^verbatim>\<open>rail_loc_df\<close>, on the state \<^verbatim>\<open>(min_dist, nearest_station)\<close>\<close>
  "nearest_rail b_lon b_lat [] st = st"
| "nearest_rail b_lon b_lat (r # rs) (min_dist, nearest_station) =
     (case haversine_miles b_lon b_lat (RAIL_LON r) (RAIL_LAT r) of
        None \<Rightarrow> nearest_rail b_lon b_lat rs (min_dist, nearest_station)
      | Some d \<Rightarrow>
          if lt_ext d min_dist
          then nearest_rail b_lon b_lat rs (Fin d, Some (STATION_NAME r))
          else nearest_rail b_lon b_lat rs (min_dist, nearest_station))"

definition gap_candidate :: "rail_location list \<Rightarrow> hotspot \<Rightarrow> candidate option" where
  \<comment> \<open>the body of the loop over \<^verbatim>\<open>bus_hotspots\<close>: the entry appended for \<open>b\<close>, if any\<close>
  "gap_candidate rail_loc_df b =
     (let b_lat = LAT_R b; b_lon = LON_R b; b_board = HOT_SUM_PASSENGERS_ON b;
          (min_dist, nearest_station) = nearest_rail b_lon b_lat rail_loc_df (Inf, None)
      in if CANDIDATE_MIN_BOARDINGS \<le> b_board \<and> gt_ext min_dist MIN_DISTANCE_MILES
         then Some \<lparr> Name = REP_STOP b, Lat = b_lat, Lon = b_lon, Bus_Boardings = b_board,
                     Nearest_Rail = (case nearest_station of Some n \<Rightarrow> Some n
                                     | None \<Rightarrow> Some ''None''),
                     Distance_Miles = (case min_dist of Fin m \<Rightarrow> Some (py_round m 2)
                                       | Inf \<Rightarrow> None),
                     Routes = ROUTES b \<rparr>
         else None)"

fun potential_stations :: "rail_location list \<Rightarrow> hotspot list \<Rightarrow> candidate list" where
  "potential_stations rail_loc_df [] = []"
| "potential_stations rail_loc_df (b # bs) =
     (case gap_candidate rail_loc_df b of
        Some c \<Rightarrow> c # potential_stations rail_loc_df bs
      | None \<Rightarrow> potential_stations rail_loc_df bs)"

text \<open>
  \<^verbatim>\<open>potential_df.sort_values('Bus_Boardings', ascending=False).head(50)\<close>. The script names
  no sort kind, so pandas sorts with its default kind, which is not a stable one: the sort is
  an argument of the model, and \<open>descending_sort\<close> is what the call guarantees of it, a
  rearrangement in descending order of boardings.
\<close>

definition potential_df :: "(candidate list \<Rightarrow> candidate list) \<Rightarrow> rail_location list
    \<Rightarrow> hotspot list \<Rightarrow> candidate list" where
  "potential_df sort_values rail_loc_df hotspots =
     (let ps = potential_stations rail_loc_df hotspots
      in if ps = [] then [] else take 50 (sort_values ps))"

definition descending_sort :: "(candidate list \<Rightarrow> candidate list) \<Rightarrow> bool" where
  "descending_sort srt \<longleftrightarrow>
     (\<forall>xs. mset (srt xs) = mset xs
           \<and> sorted_wrt (\<lambda>x y. Bus_Boardings y \<le> Bus_Boardings x) (srt xs))"

text \<open>
  One such sort, for the examples: sort ascending and reverse. Like any sort that is not
  stable it may change the order of equal boardings.
\<close>

definition reversing_sort :: "candidate list \<Rightarrow> candidate list" where
  "reversing_sort xs = rev (sort_key Bus_Boardings xs)"

text \<open>
  A bus table for the examples: \<open>n\<close> stops on a line, one ten-thousandth of a degree of
  latitude apart, 600 boardings each.
\<close>

definition grid_row :: "nat \<Rightarrow> bus_row" where
  "grid_row n = \<lparr> STOP = Some ''K ST'', LAT = 38 + real n / 10000, LON = - 77,
                  SUM_PASSENGERS_ON = Some 600, ROUTE_NAME = Some ''D6'' \<rparr>"

definition grid_rows :: "nat \<Rightarrow> bus_row list" where
  "grid_rows n = map grid_row [0 ..< n]"

text \<open>The great-circle distance the loop compares, and the least of them.\<close>

definition great_circle :: "hotspot \<Rightarrow> rail_location \<Rightarrow> real" where
  "great_circle b r =
     2 * arcsin (sqrt (haversine_a (LON_R b) (LAT_R b) (RAIL_LON r) (RAIL_LAT r))) * 3956"

definition min_distance :: "hotspot \<Rightarrow> rail_location list \<Rightarrow> real" where
  "min_distance b rs = Min (set (map (great_circle b) rs))"

subsection \<open>Rail station coordinates\<close>

fun split_acc :: "string \<Rightarrow> string \<Rightarrow> string list" where
  \<comment> \<open>\<^verbatim>\<open>str.split()\<close> of a string whose only whitespace is the blank; the first argument
      is the current word, reversed\<close>
  "split_acc cur [] = (if cur = [] then [] else [rev cur])"
| "split_acc cur (c # cs) =
     (if c = CHR '' '' then (if cur = [] then split_acc [] cs else rev cur # split_acc [] cs)
      else split_acc (c # cur) cs)"

definition tokens :: "string \<Rightarrow> string list" where
  \<comment> \<open>\<^verbatim>\<open>[t for t in ''.join(ch if ch.isalnum() else ' ' for ch in name).split() if len(t) > 1]\<close>\<close>
  "tokens name =
     filter (\<lambda>t. 1 < length t) (split_acc [] (map (\<lambda>ch. if isalnum ch then ch else CHR '' '') name))"

definition token_overlap :: "string list \<Rightarrow> string list \<Rightarrow> nat" where
  \<comment> \<open>\<^verbatim>\<open>len(set(t.lower() for t in station_tokens) & set(t.lower() for t in b_tokens))\<close>\<close>
  "token_overlap station_tokens b_tokens =
     card (set (map lower station_tokens) \<inter> set (map lower b_tokens))"

fun best_match_loop :: "string \<Rightarrow> string list \<Rightarrow> string list \<Rightarrow> string option \<times> real
    \<Rightarrow> string option \<times> real" where
  \<comment> \<open>\<^verbatim>\<open>for i, bname in enumerate(bus_stop_names)\<close>, on the state \<^verbatim>\<open>(best_match, best_ratio)\<close>\<close>
  "best_match_loop station_name station_tokens [] st = st"
| "best_match_loop station_name station_tokens (bname # bs) (best_match, best_ratio) =
     (if bname = [] then best_match_loop station_name station_tokens bs (best_match, best_ratio)
      else
        let b_tokens = tokens bname;
            overlap = token_overlap station_tokens b_tokens;
            ratio = similar station_name bname
        in if 1 \<le> overlap \<and> 0.6 < ratio
           then (if best_ratio < ratio
                 then best_match_loop station_name station_tokens bs (Some bname, ratio)
                 else best_match_loop station_name station_tokens bs (best_match, best_ratio))
           else if best_ratio < ratio \<and> 0.78 < ratio
           then best_match_loop station_name station_tokens bs (Some bname, ratio)
           else best_match_loop station_name station_tokens bs (best_match, best_ratio))"

definition bus_stop_agg :: "bus_row list \<Rightarrow> bus_stop_agg_row list" where
  \<comment> \<open>\<^verbatim>\<open>bus_df.groupby('STOP').agg({'LAT': 'mean', 'LON': 'mean', 'SUM_PASSENGERS_ON': 'sum'})\<close>;
      rows without a stop name have no group\<close>
  "bus_stop_agg bus_df =
     map (\<lambda>n. let g = filter (\<lambda>r. STOP r = Some n) bus_df
              in \<lparr> AGG_STOP = n, AGG_LAT = mean (map LAT g), AGG_LON = mean (map LON g),
                   AGG_SUM_PASSENGERS_ON = sum_skipna (map SUM_PASSENGERS_ON g) \<rparr>)
       (group_keys (dropna (map STOP bus_df)))"

text \<open>
  The loop over \<^verbatim>\<open>rail_usage\<close>. \<^verbatim>\<open>bus_stop_agg[bus_stop_agg['STOP'] == best_match].iloc[0]\<close>
  raises \<^verbatim>\<open>IndexError\<close> when no row has that name, which would end the run. Every row of
  \<^verbatim>\<open>rail_usage\<close> has a station name here (rows without a mapped name were dropped, and
  without a mapping the name is the text of the stop id), so the fallback \<^verbatim>\<open>str(stop_id)\<close> is
  not taken; stop names are text, which \<^verbatim>\<open>astype(str)\<close> leaves as it is.
\<close>

datatype lookup_error = IndexError

fun rail_locations_loop :: "bus_stop_agg_row list \<Rightarrow> rail_usage_row list \<Rightarrow> rail_location list
    \<Rightarrow> lookup_error + rail_location list" where
  "rail_locations_loop agg_rows [] rail_locations = Inr rail_locations"
| "rail_locations_loop agg_rows (row # rest) rail_locations =
     (let stop_id = USAGE_STOP_ID row;
          station_name = USAGE_STATION_NAME row;
          station_tokens = tokens station_name;
          bus_stop_names = map AGG_STOP agg_rows
      in case best_match_loop station_name station_tokens bus_stop_names (None, 0) of
           (Some best_match, best_ratio) \<Rightarrow>
             if best_match = [] then rail_locations_loop agg_rows rest rail_locations
             else
               (case find (\<lambda>r. AGG_STOP r = best_match) agg_rows of
                  None \<Rightarrow> Inl IndexError
                | Some match_row \<Rightarrow>
                    rail_locations_loop agg_rows rest
                      (rail_locations @
                         [\<lparr> STOP_ID = stop_id, STATION_NAME = station_name,
                             RAIL_BOARDINGS = AVG_BOARDINGS row,
                             RAIL_LAT = AGG_LAT match_row, RAIL_LON = AGG_LON match_row,
                             MATCHED_STOP = best_match, MATCH_SCORE = best_ratio \<rparr>]))
         | (None, best_ratio) \<Rightarrow> rail_locations_loop agg_rows rest rail_locations)"

definition rail_locations :: "bus_row list \<Rightarrow> rail_usage_row list \<Rightarrow> lookup_error + rail_location list" where
  "rail_locations bus_df rail_usage_rows = rail_locations_loop (bus_stop_agg bus_df) rail_usage_rows []"

text \<open>When a bus stop name is a candidate match for a station name.\<close>

definition share_token :: "string \<Rightarrow> string \<Rightarrow> bool" where
  "share_token station_name bname \<longleftrightarrow>
     set (map lower (tokens station_name)) \<inter> set (map lower (tokens bname)) \<noteq> {}"

definition candidate_match :: "string \<Rightarrow> string \<Rightarrow> bool" where
  "candidate_match station_name bname \<longleftrightarrow>
     share_token station_name bname \<and> 0.6 < similar station_name bname
     \<or> 0.78 < similar station_name bname"

definition best_so_far :: "string \<Rightarrow> string list \<Rightarrow> string option \<times> real \<Rightarrow> bool" where
  \<comment> \<open>the state of the loop after the names \<open>seen\<close>: nothing yet, or the first of the best
      candidates among them\<close>
  "best_so_far station_name seen st \<longleftrightarrow>
     (st = (None, 0) \<and> (\<forall>x\<in>set seen. \<not> (x \<noteq> [] \<and> candidate_match station_name x)))
     \<or> (\<exists>pre c post. seen = pre @ c # post \<and> c \<noteq> [] \<and> candidate_match station_name c
           \<and> st = (Some c, similar station_name c)
           \<and> (\<forall>x\<in>set seen. x \<noteq> [] \<and> candidate_match station_name x
                 \<longrightarrow> similar station_name x \<le> similar station_name c)
           \<and> (\<forall>x\<in>set pre. x \<noteq> [] \<and> candidate_match station_name x
                 \<longrightarrow> similar station_name x < similar station_name c))"

definition placed_at_match :: "bus_row list \<Rightarrow> rail_location \<Rightarrow> bool" where
  \<comment> \<open>the entry carries a bus stop name of the table that is a candidate match of its station
      name, the score of that match, and the mean position of the rows of that stop\<close>
  "placed_at_match bus_df l \<longleftrightarrow>
     (\<exists>r\<in>set bus_df. STOP r = Some (MATCHED_STOP l))
     \<and> MATCHED_STOP l \<noteq> [] \<and> candidate_match (STATION_NAME l) (MATCHED_STOP l)
     \<and> MATCH_SCORE l = similar (STATION_NAME l) (MATCHED_STOP l)
     \<and> RAIL_LAT l = mean (map LAT (filter (\<lambda>r. STOP r = Some (MATCHED_STOP l)) bus_df))
     \<and> RAIL_LON l = mean (map LON (filter (\<lambda>r. STOP r = Some (MATCHED_STOP l)) bus_df))"

definition has_match :: "bus_row list \<Rightarrow> rail_usage_row \<Rightarrow> bool" where
  \<comment> \<open>some bus stop name of the table is a candidate match of the station's name\<close>
  "has_match bus_df row \<longleftrightarrow>
     (\<exists>b\<in>set (map AGG_STOP (bus_stop_agg bus_df)).
        b \<noteq> [] \<and> candidate_match (USAGE_STATION_NAME row) b)"

text \<open>
  A small run for the examples: two rows of the stop \<open>TAKOMA\<close> on the equator, one other stop,
  one row without a stop name; two stations, of which only \<open>Takoma\<close> has a match; one cell of
  600 boardings at the origin, 1.5 miles from the mean position of the two \<open>TAKOMA\<close> rows.
\<close>

definition example_bus_df :: "bus_row list" where
  "example_bus_df =
     [\<lparr> STOP = Some ''TAKOMA'', LAT = 0, LON = 0, SUM_PASSENGERS_ON = Some 40,
         ROUTE_NAME = Some ''K2'' \<rparr>,
      \<lparr> STOP = Some ''K ST'', LAT = 1, LON = 1, SUM_PASSENGERS_ON = Some 600,
         ROUTE_NAME = Some ''D6'' \<rparr>,
      \<lparr> STOP = None, LAT = 2, LON = 2, SUM_PASSENGERS_ON = None, ROUTE_NAME = None \<rparr>,
      \<lparr> STOP = Some ''TAKOMA'', LAT = 0, LON = 540 / (3956 * pi), SUM_PASSENGERS_ON = Some 60,
         ROUTE_NAME = Some ''K2'' \<rparr>]"

definition example_rail_usage :: "rail_usage_row list" where
  "example_rail_usage =
     [\<lparr> USAGE_STOP_ID = Text ''B07'', AVG_BOARDINGS = 5000, USAGE_STATION_NAME = ''Takoma'' \<rparr>,
      \<lparr> USAGE_STOP_ID = Text ''E06'', AVG_BOARDINGS = 7000, USAGE_STATION_NAME = ''Fort Totten'' \<rparr>]"

definition example_location :: rail_location where
  "example_location =
     \<lparr> STOP_ID = Text ''B07'', STATION_NAME = ''Takoma'', RAIL_BOARDINGS = 5000,
       RAIL_LAT = 0, RAIL_LON = 270 / (3956 * pi), MATCHED_STOP = ''TAKOMA'', MATCH_SCORE = 1 \<rparr>"

definition example_hotspot :: hotspot where
  "example_hotspot =
     \<lparr> LAT_R = 0, LON_R = 0, HOT_SUM_PASSENGERS_ON = 600, REP_STOP = Some ''K ST'',
       ROUTES = ''D6'' \<rparr>"

section \<open>Verification\<close>

subsection \<open>Column resolution\<close>

lemma startswith_iff: "startswith s p \<longleftrightarrow> (\<exists>q. s = p @ q)"
  by (induction s p rule: startswith.induct) auto

lemma str_contains_iff: "str_contains s sub \<longleftrightarrow> (\<exists>p q. s = p @ sub @ q)"
proof (induction s)
  case Nil
  then show ?case by auto
next
  case (Cons c cs)
  show ?case
  proof
    assume "str_contains (c # cs) sub"
    then consider "startswith (c # cs) sub" | "str_contains cs sub" by auto
    then show "\<exists>p q. c # cs = p @ sub @ q"
    proof cases
      case 1
      then obtain q where "c # cs = sub @ q" by (auto simp: startswith_iff)
      then have "c # cs = [] @ sub @ q" by simp
      then show ?thesis by blast
    next
      case 2
      then obtain p q where "cs = p @ sub @ q" using Cons.IH by blast
      then have "c # cs = (c # p) @ sub @ q" by simp
      then show ?thesis by blast
    qed
  next
    assume "\<exists>p q. c # cs = p @ sub @ q"
    then obtain p q where pq: "c # cs = p @ sub @ q" by blast
    show "str_contains (c # cs) sub"
    proof (cases p)
      case Nil
      with pq have "startswith (c # cs) sub" by (auto simp: startswith_iff)
      then show ?thesis by simp
    next
      case (Cons d p')
      with pq have "cs = p' @ sub @ q" by simp
      then have "str_contains cs sub" using Cons.IH by blast
      then show ?thesis by simp
    qed
  qed
qed

lemma build_norm_map_lookup:
  "build_norm_map m cols k =
     (case filter (\<lambda>c. norm_key c = k) cols of [] \<Rightarrow> m k | x # xs \<Rightarrow> Some (last (x # xs)))"
proof (induction cols arbitrary: m)
  case Nil
  then show ?case by simp
next
  case (Cons c cs)
  show ?case
  proof (cases "norm_key c = k")
    case True
    then show ?thesis by (simp add: Cons.IH split: list.splits)
  next
    case False
    then show ?thesis by (simp add: Cons.IH split: list.splits)
  qed
qed

lemma exact_pass_find:
  "exact_pass nm cands =
     (case find (\<lambda>cand. nm (norm_key cand) \<noteq> None) cands of
        Some cand \<Rightarrow> nm (norm_key cand) | None \<Rightarrow> None)"
  by (induction cands) (auto split: option.splits)

lemma contains_inner_find:
  "contains_inner cand cols = find (\<lambda>c. str_contains (lower c) (lower cand)) cols"
  by (induction cols) auto

lemma contains_pass_find:
  "contains_pass cols cands =
     (case find (\<lambda>cand. \<exists>c\<in>set cols. str_contains (lower c) (lower cand)) cands of
        Some cand \<Rightarrow> find (\<lambda>c. str_contains (lower c) (lower cand)) cols | None \<Rightarrow> None)"
proof (induction cands)
  case Nil
  then show ?case by simp
next
  case (Cons cand cands)
  show ?case
  proof (cases "\<exists>c\<in>set cols. str_contains (lower c) (lower cand)")
    case True
    then have "find (\<lambda>c. str_contains (lower c) (lower cand)) cols \<noteq> None"
      by (auto simp: find_None_iff)
    with True show ?thesis by (auto simp: contains_inner_find)
  next
    case False
    then have "find (\<lambda>c. str_contains (lower c) (lower cand)) cols = None"
      by (auto simp: find_None_iff)
    with False show ?thesis by (simp add: contains_inner_find Cons.IH)
  qed
qed


lemma norm_map_defined:
  "build_norm_map Map.empty cols (norm_key cand) \<noteq> None \<longleftrightarrow> exact_match cols cand"
proof -
  have "filter (\<lambda>c. norm_key c = norm_key cand) cols \<noteq> [] \<longleftrightarrow> exact_match cols cand"
    by (auto simp: exact_match_def filter_empty_conv)
  then show ?thesis
    by (cases "filter (\<lambda>c. norm_key c = norm_key cand) cols") (simp_all add: build_norm_map_lookup)
qed

lemma find_best_column_char:
  "find_best_column cols cands =
     (case find (exact_match cols) cands of
        Some cand \<Rightarrow> Some (last (filter (\<lambda>c. norm_key c = norm_key cand) cols))
      | None \<Rightarrow>
         (case find (substring_match cols) cands of
            Some cand \<Rightarrow> find (\<lambda>c. str_contains (lower c) (lower cand)) cols
          | None \<Rightarrow> None))"
proof -
  have e: "(\<lambda>cand. build_norm_map Map.empty cols (norm_key cand) \<noteq> None) = exact_match cols"
    by (rule ext) (rule norm_map_defined)
  have s: "(\<lambda>cand. \<exists>c\<in>set cols. str_contains (lower c) (lower cand)) = substring_match cols"
    by (rule ext) (simp add: substring_match_def)
  have ep: "exact_pass (build_norm_map Map.empty cols) cands =
     (case find (exact_match cols) cands of
        Some cand \<Rightarrow> build_norm_map Map.empty cols (norm_key cand) | None \<Rightarrow> None)"
    unfolding exact_pass_find e ..
  have cp: "contains_pass cols cands =
     (case find (substring_match cols) cands of
        Some cand \<Rightarrow> find (\<lambda>c. str_contains (lower c) (lower cand)) cols | None \<Rightarrow> None)"
    unfolding contains_pass_find s ..
  show ?thesis
  proof (cases "find (exact_match cols) cands")
    case None
    then show ?thesis
      by (simp add: find_best_column_def ep cp)
  next
    case (Some cand)
    then have "exact_match cols cand" by (auto simp: find_Some_iff)
    then have "filter (\<lambda>c. norm_key c = norm_key cand) cols \<noteq> []"
      by (auto simp: exact_match_def filter_empty_conv)
    then show ?thesis using Some
      by (cases "filter (\<lambda>c. norm_key c = norm_key cand) cols")
         (simp_all add: find_best_column_def ep build_norm_map_lookup)
  qed
qed


lemma find_best_column_None_iff:
  "find_best_column cols cands = None \<longleftrightarrow>
     (\<forall>cand\<in>set cands. \<not> exact_match cols cand \<and> \<not> substring_match cols cand)"
proof (cases "find (exact_match cols) cands")
  case None
  then have ne: "\<forall>cand\<in>set cands. \<not> exact_match cols cand"
    by (auto simp: find_None_iff)
  show ?thesis
  proof (cases "find (substring_match cols) cands")
    case None2: None
    then have "\<forall>cand\<in>set cands. \<not> substring_match cols cand"
      by (auto simp: find_None_iff)
    with ne None None2 show ?thesis by (simp add: find_best_column_char)
  next
    case (Some cand)
    then have c: "cand \<in> set cands" "substring_match cols cand"
      by (auto simp: find_Some_iff)
    then have "find (\<lambda>c. str_contains (lower c) (lower cand)) cols \<noteq> None"
      by (auto simp: substring_match_def find_None_iff)
    with None Some c show ?thesis by (auto simp: find_best_column_char)
  qed
next
  case (Some cand)
  then have "cand \<in> set cands" "exact_match cols cand"
    by (auto simp: find_Some_iff)
  with Some show ?thesis by (auto simp: find_best_column_char)
qed

text \<open>
  Claim C10, as the code has it. Resolution is a function of its two arguments. It makes two
  passes over the candidates: the first candidate whose normalized name equals a column's
  normalized name wins, with a column of that normalized name; only when no candidate matches
  exactly, the first candidate that is a case-insensitive substring of some column wins, with
  the first such column. So an exact match of a later candidate precedes a substring match of
  an earlier one. The result is \<open>None\<close> exactly when no candidate matches in either way.
  Given candidates \<open>[a, b]\<close> and a table holding both, the answer is \<open>a\<close> provided no other
  column has the normalized name of \<open>a\<close>.
\<close>

theorem find_best_column_order:
  "(case find (exact_match cols) cands of
      Some cand \<Rightarrow>
        (\<exists>c. find_best_column cols cands = Some c \<and> c \<in> set cols \<and> norm_key c = norm_key cand)
    | None \<Rightarrow>
        find_best_column cols cands =
          (case find (substring_match cols) cands of
             Some cand \<Rightarrow> find (\<lambda>c. str_contains (lower c) (lower cand)) cols
           | None \<Rightarrow> None))
   \<and> (find_best_column cols cands = None \<longleftrightarrow>
        (\<forall>cand\<in>set cands. \<not> exact_match cols cand \<and> \<not> substring_match cols cand))
   \<and> (a \<in> set cols \<and> b \<in> set cols \<and> (\<forall>c\<in>set cols. norm_key c = norm_key a \<longrightarrow> c = a)
        \<longrightarrow> find_best_column cols [a, b] = Some a)"
proof (intro conjI)
  show "case find (exact_match cols) cands of
      Some cand \<Rightarrow>
        (\<exists>c. find_best_column cols cands = Some c \<and> c \<in> set cols \<and> norm_key c = norm_key cand)
    | None \<Rightarrow>
        find_best_column cols cands =
          (case find (substring_match cols) cands of
             Some cand \<Rightarrow> find (\<lambda>c. str_contains (lower c) (lower cand)) cols
           | None \<Rightarrow> None)"
  proof (cases "find (exact_match cols) cands")
    case None
    then show ?thesis by (simp add: find_best_column_char)
  next
    case (Some cand)
    then have "exact_match cols cand" by (auto simp: find_Some_iff)
    then have ne: "filter (\<lambda>c. norm_key c = norm_key cand) cols \<noteq> []"
      by (auto simp: exact_match_def filter_empty_conv)
    then have "last (filter (\<lambda>c. norm_key c = norm_key cand) cols)
                 \<in> set (filter (\<lambda>c. norm_key c = norm_key cand) cols)"
      by (rule last_in_set)
    then show ?thesis using Some by (simp add: find_best_column_char)
  qed
next
  show "find_best_column cols cands = None \<longleftrightarrow>
        (\<forall>cand\<in>set cands. \<not> exact_match cols cand \<and> \<not> substring_match cols cand)"
    by (rule find_best_column_None_iff)
next
  show "a \<in> set cols \<and> b \<in> set cols \<and> (\<forall>c\<in>set cols. norm_key c = norm_key a \<longrightarrow> c = a)
        \<longrightarrow> find_best_column cols [a, b] = Some a"
  proof
    assume h: "a \<in> set cols \<and> b \<in> set cols \<and> (\<forall>c\<in>set cols. norm_key c = norm_key a \<longrightarrow> c = a)"
    then have ex: "exact_match cols a" by (auto simp: exact_match_def)
    from h have ne: "filter (\<lambda>c. norm_key c = norm_key a) cols \<noteq> []"
      by (auto simp: filter_empty_conv)
    then have "last (filter (\<lambda>c. norm_key c = norm_key a) cols)
                 \<in> set (filter (\<lambda>c. norm_key c = norm_key a) cols)"
      by (rule last_in_set)
    with h have "last (filter (\<lambda>c. norm_key c = norm_key a) cols) = a" by simp
    with ex show "find_best_column cols [a, b] = Some a"
      by (simp add: find_best_column_char)
  qed
qed

theorem find_best_column_order_witness:
  "''stop_id'' \<in> set [''svc_date'', ''stop_id'', ''stop'']
   \<and> ''stop'' \<in> set [''svc_date'', ''stop_id'', ''stop'']
   \<and> find_best_column [''svc_date'', ''stop_id'', ''stop''] [''stop_id'', ''stop''] = Some ''stop_id''"
proof -
  have u: "\<forall>c\<in>set [''svc_date'', ''stop_id'', ''stop''].
             norm_key c = norm_key ''stop_id'' \<longrightarrow> c = ''stop_id''"
    by code_simp
  show ?thesis
    using u find_best_column_order [of "[''svc_date'', ''stop_id'', ''stop'']" "[]" "''stop_id''" "''stop''"]
    by simp
qed

text \<open>
  C10 as stated fails: the earlier candidate \<open>stop\<close> matches the column \<open>stop_name\<close> by
  substring, yet the later candidate \<open>stopid\<close> is answered; and with the candidates
  \<open>[a, b]\<close> both present as columns the answer is \<open>b\<close> when the two normalize alike.
\<close>

theorem find_best_column_order_counterexample:
  "substring_match [''stop_name'', ''stopid''] ''stop''
   \<and> find_best_column [''stop_name'', ''stopid''] [''stop'', ''stopid''] = Some ''stopid''
   \<and> find_best_column [''stop_id'', ''Stop ID''] [''stop_id'', ''Stop ID''] = Some ''Stop ID''"
  by code_simp

subsection \<open>Rail usage\<close>

lemmas column_eval =
  find_best_column_def norm_key_def strip_def lower_def lower_char_def remove_char_def isspace_def
  DATE_CANDIDATES_def STOP_CANDIDATES_def BOARD_CANDIDATES_def truthy_def

lemmas rail_eval =
  year_summary_def synthetic_date_def to_datetime_def is_object_def coerce_boardings_def
  cell_to_float_def daily_totals_def stop_means_def group_keys_def mean_def Let_def

lemma load_rail_state:
  "load_rail P files (found_any_rail, year_station_dfs) =
     (found_any_rail \<or> (\<exists>df. Frame df \<in> set files),
      year_station_dfs @ List.map_filter (file_summary P) files)"
proof (induction files arbitrary: found_any_rail year_station_dfs)
  case Nil
  then show ?case by (simp add: List.map_filter_simps)
next
  case (Cons f fs)
  show ?case
  proof (cases f)
    case NotFound
    then show ?thesis by (simp add: Cons.IH List.map_filter_simps file_summary_def)
  next
    case ReadError
    then show ?thesis by (simp add: Cons.IH List.map_filter_simps file_summary_def)
  next
    case (Frame df)
    then show ?thesis
      by (cases "year_summary P df") (auto simp: Cons.IH List.map_filter_simps file_summary_def)
  qed
qed

lemma rail_usage_frames:
  "rail_usage P files =
     (if List.map_filter (file_summary P) files = [] then Inl NoUsableData
      else Inr (combine_years (List.map_filter (file_summary P) files)))"
proof -
  have "List.map_filter (file_summary P) files \<noteq> [] \<Longrightarrow> \<exists>df. Frame df \<in> set files"
  proof -
    assume "List.map_filter (file_summary P) files \<noteq> []"
    then obtain f where f: "f \<in> set files" "file_summary P f \<noteq> None"
      by (auto simp: List.map_filter_def filter_empty_conv)
    have "\<exists>df. f = Frame df"
    proof (cases f)
      case (Frame df)
      then show ?thesis by blast
    qed (use f in \<open>simp_all add: file_summary_def\<close>)
    with f show ?thesis by blast
  qed
  then show ?thesis by (auto simp: rail_usage_def load_rail_state)
qed

lemma map_filter_empty_iff:
  "List.map_filter g xs = [] \<longleftrightarrow> (\<forall>x\<in>set xs. g x = None)"
  by (auto simp: List.map_filter_def filter_empty_conv)

lemma map_filter_skip:
  assumes "g x = None"
  shows "List.map_filter g (xs @ x # ys) = List.map_filter g (xs @ ys)"
  using assms by (simp add: List.map_filter_def)

lemma file_summary_None_iff:
  "file_summary P f = None \<longleftrightarrow>
     f = NotFound \<or> f = ReadError
     \<or> (\<exists>df. f = Frame df \<and> (year_summary P df = Inl MissingColumns
                               \<or> year_summary P df = Inl AggregationError))"
proof (cases f)
  case (Frame df)
  show ?thesis
  proof (cases "year_summary P df")
    case (Inl why)
    with Frame show ?thesis by (cases why) (simp_all add: file_summary_def)
  next
    case (Inr sa)
    with Frame show ?thesis by (simp add: file_summary_def)
  qed
qed (simp_all add: file_summary_def)

lemma year_summary_MissingColumns_iff:
  "year_summary P df = Inl MissingColumns \<longleftrightarrow>
     truthy (find_best_column (columns df) STOP_CANDIDATES) = None
     \<or> truthy (find_best_column (columns df) BOARD_CANDIDATES) = None"
  by (auto simp: year_summary_def Let_def split: option.splits prod.splits if_splits)


lemma year_summary_no_date:
  assumes "truthy (find_best_column (columns df) DATE_CANDIDATES) = None"
  shows "case year_summary P df of Inl why \<Rightarrow> True | Inr station_avg \<Rightarrow> figures station_avg = []"
proof -
  have d: "\<forall>r\<in>set (snd (synthetic_date (rows df))). r (fst (synthetic_date (rows df))) = Missing"
    by (simp add: synthetic_date_def)
  have e: "daily_totals (zip (map (\<lambda>r. r c) rs) ys) = []" if "\<forall>r\<in>set rs. r c = Missing"
    for c rs and ys :: "(cell \<times> real) list"
  proof -
    have "filter (\<lambda>(d, s, b). d \<noteq> Missing) (zip (map (\<lambda>r. r c) rs) ys) = []"
      using that by (auto simp: filter_empty_conv dest!: set_zip_leftD)
    then show ?thesis by (simp add: daily_totals_def group_keys_def)
  qed
  obtain date_c dated where sd: "synthetic_date (rows df) = (date_c, dated)"
    by (cases "synthetic_date (rows df)")
  with d have dm: "\<forall>r\<in>set dated. r date_c = Missing" by simp
  show ?thesis
    using assms dm
    by (auto simp: year_summary_def Let_def sd e stop_means_def group_keys_def
             split: option.splits prod.splits sum.splits)
qed

text \<open>
  Claim C4 fails on the code. A table with a stop and a boardings column and no date column is
  given the synthetic date \<^verbatim>\<open>NaT\<close>, a missing group key, so \<^verbatim>\<open>groupby\<close> drops every row: the
  table is summarized to no station at all, and a run on this table alone ends with an empty
  rail usage instead of a figure of 100 for A01.
\<close>

theorem no_date_column_loses_rows:
  "year_summary P
     \<lparr> columns = [''stop_id'', ''avg_boardings''],
       rows = [(\<lambda>c. Missing)(''stop_id'' := Text ''A01'', ''avg_boardings'' := Num 100)] \<rparr>
   = Inr \<lparr> stop_column = ''stop_id'', figures = [] \<rparr>
   \<and> rail_usage P
     [Frame \<lparr> columns = [''stop_id'', ''avg_boardings''],
       rows = [(\<lambda>c. Missing)(''stop_id'' := Text ''A01'', ''avg_boardings'' := Num 100)] \<rparr>]
   = Inr []"
proof -
  have y: "year_summary P
     \<lparr> columns = [''stop_id'', ''avg_boardings''],
       rows = [(\<lambda>c. Missing)(''stop_id'' := Text ''A01'', ''avg_boardings'' := Num 100)] \<rparr>
   = Inr \<lparr> stop_column = ''stop_id'', figures = [] \<rparr>"
    by (simp add: column_eval rail_eval)
  show ?thesis
    unfolding rail_usage_frames
    by (simp add: y List.map_filter_simps file_summary_def combine_years_def group_keys_def)
qed

theorem no_date_column_loses_rows_witness:
  "year_summary example_parsers
     \<lparr> columns = [''stop_id'', ''avg_boardings''],
       rows = [(\<lambda>c. Missing)(''stop_id'' := Text ''A01'', ''avg_boardings'' := Num 100)] \<rparr>
   = Inr \<lparr> stop_column = ''stop_id'', figures = [] \<rparr>
   \<and> rail_usage example_parsers
     [Frame \<lparr> columns = [''stop_id'', ''avg_boardings''],
       rows = [(\<lambda>c. Missing)(''stop_id'' := Text ''A01'', ''avg_boardings'' := Num 100)] \<rparr>]
   = Inr []"
  by (rule no_date_column_loses_rows [of example_parsers])

lemma year_2022: "year_summary P
     \<lparr> columns = [''svc_date'', ''stop_id'', ''avg_boardings''],
       rows = [(\<lambda>c. Missing)(''svc_date'' := Num 20220101, ''stop_id'' := Text ''A01'', ''avg_boardings'' := Num 100)] \<rparr>
   = Inr \<lparr> stop_column = ''stop_id'', figures = [(Text ''A01'', 100)] \<rparr>"
  by (simp add: column_eval rail_eval)

lemma year_2023: "year_summary P
     \<lparr> columns = [''svc_date'', ''stop_id'', ''avg_boardings''],
       rows = [(\<lambda>c. Missing)(''svc_date'' := Num 20230101, ''stop_id'' := Text ''A01'', ''avg_boardings'' := Num 200)] \<rparr>
   = Inr \<lparr> stop_column = ''stop_id'', figures = [(Text ''A01'', 200)] \<rparr>"
  by (simp add: column_eval rail_eval)

lemma year_2024: "year_summary P
     \<lparr> columns = [''svc_date'', ''stop_id'', ''avg_boardings''],
       rows = [(\<lambda>c. Missing)(''svc_date'' := Num 20240101, ''stop_id'' := Text ''A01'', ''avg_boardings'' := Num 300)] \<rparr>
   = Inr \<lparr> stop_column = ''stop_id'', figures = [(Text ''A01'', 300)] \<rparr>"
  by (simp add: column_eval rail_eval)

lemma year_2024_station_id: "year_summary P
     \<lparr> columns = [''svc_date'', ''station_id'', ''avg_boardings''],
       rows = [(\<lambda>c. Missing)(''svc_date'' := Num 20240101, ''station_id'' := Text ''A01'', ''avg_boardings'' := Num 300)] \<rparr>
   = Inr \<lparr> stop_column = ''station_id'', figures = [(Text ''A01'', 300)] \<rparr>"
  by (simp add: column_eval rail_eval)

text \<open>
  Claim C6 fails on the code. Three yearly tables with the same stop column combine to the
  mean 200 of 100, 200 and 300; but the combination groups by the stop column of the first
  table only, so when the 2024 table calls its stop column \<open>station_id\<close> instead of \<open>stop_id\<close>,
  its figure 300 for A01 is dropped and the result for A01 is 100, not the mean 200 of 100
  and 300.
\<close>

theorem combine_years_first_stop_column:
  "rail_usage P
     [Frame \<lparr> columns = [''svc_date'', ''stop_id'', ''avg_boardings''],
       rows = [(\<lambda>c. Missing)(''svc_date'' := Num 20220101, ''stop_id'' := Text ''A01'', ''avg_boardings'' := Num 100)] \<rparr>,
      Frame \<lparr> columns = [''svc_date'', ''stop_id'', ''avg_boardings''],
       rows = [(\<lambda>c. Missing)(''svc_date'' := Num 20230101, ''stop_id'' := Text ''A01'', ''avg_boardings'' := Num 200)] \<rparr>,
      Frame \<lparr> columns = [''svc_date'', ''stop_id'', ''avg_boardings''],
       rows = [(\<lambda>c. Missing)(''svc_date'' := Num 20240101, ''stop_id'' := Text ''A01'', ''avg_boardings'' := Num 300)] \<rparr>]
   = Inr [(Text ''A01'', 200)]
   \<and> rail_usage P
     [Frame \<lparr> columns = [''svc_date'', ''stop_id'', ''avg_boardings''],
       rows = [(\<lambda>c. Missing)(''svc_date'' := Num 20220101, ''stop_id'' := Text ''A01'', ''avg_boardings'' := Num 100)] \<rparr>,
      Frame \<lparr> columns = [''svc_date'', ''station_id'', ''avg_boardings''],
       rows = [(\<lambda>c. Missing)(''svc_date'' := Num 20240101, ''station_id'' := Text ''A01'', ''avg_boardings'' := Num 300)] \<rparr>]
   = Inr [(Text ''A01'', 100)]"
  unfolding rail_usage_frames
  by (simp add: year_2022 year_2023 year_2024 year_2024_station_id List.map_filter_simps
        file_summary_def combine_years_def group_keys_def mean_def)

theorem combine_years_first_stop_column_witness:
  "rail_usage example_parsers
     [Frame \<lparr> columns = [''svc_date'', ''stop_id'', ''avg_boardings''],
       rows = [(\<lambda>c. Missing)(''svc_date'' := Num 20220101, ''stop_id'' := Text ''A01'', ''avg_boardings'' := Num 100)] \<rparr>,
      Frame \<lparr> columns = [''svc_date'', ''stop_id'', ''avg_boardings''],
       rows = [(\<lambda>c. Missing)(''svc_date'' := Num 20230101, ''stop_id'' := Text ''A01'', ''avg_boardings'' := Num 200)] \<rparr>,
      Frame \<lparr> columns = [''svc_date'', ''stop_id'', ''avg_boardings''],
       rows = [(\<lambda>c. Missing)(''svc_date'' := Num 20240101, ''stop_id'' := Text ''A01'', ''avg_boardings'' := Num 300)] \<rparr>]
   = Inr [(Text ''A01'', 200)]
   \<and> rail_usage example_parsers
     [Frame \<lparr> columns = [''svc_date'', ''stop_id'', ''avg_boardings''],
       rows = [(\<lambda>c. Missing)(''svc_date'' := Num 20220101, ''stop_id'' := Text ''A01'', ''avg_boardings'' := Num 100)] \<rparr>,
      Frame \<lparr> columns = [''svc_date'', ''station_id'', ''avg_boardings''],
       rows = [(\<lambda>c. Missing)(''svc_date'' := Num 20240101, ''station_id'' := Text ''A01'', ''avg_boardings'' := Num 300)] \<rparr>]
   = Inr [(Text ''A01'', 100)]"
  by (rule combine_years_first_stop_column [of example_parsers])

text \<open>
  Claim C5, as the code has it. The frames a run combines are exactly the summaries of the
  files that could be read, have a stop and a boardings column and whose aggregation did not
  raise, in file order; a file that contributes no frame can be removed without changing the
  result. A table is skipped for missing columns exactly when no stop column or no boardings
  column resolves. The run aborts with \<open>NoUsableData\<close> exactly when no file contributes a
  frame: every file was not found, unreadable, skipped for missing columns, or failed in
  its aggregation.
\<close>

theorem rail_usage_skips:
  "rail_usage P files =
     (if List.map_filter (file_summary P) files = [] then Inl NoUsableData
      else Inr (combine_years (List.map_filter (file_summary P) files)))
   \<and> (file_summary P f = None \<longrightarrow> rail_usage P (fs @ f # gs) = rail_usage P (fs @ gs))
   \<and> (file_summary P f = None \<longleftrightarrow>
        f = NotFound \<or> f = ReadError
        \<or> (\<exists>df. f = Frame df \<and> (year_summary P df = Inl MissingColumns
                                  \<or> year_summary P df = Inl AggregationError)))
   \<and> (year_summary P df = Inl MissingColumns \<longleftrightarrow>
        truthy (find_best_column (columns df) STOP_CANDIDATES) = None
        \<or> truthy (find_best_column (columns df) BOARD_CANDIDATES) = None)
   \<and> (rail_usage P files = Inl NoUsableData \<longleftrightarrow>
        (\<forall>f\<in>set files. f = NotFound \<or> f = ReadError
           \<or> (\<exists>df. f = Frame df \<and> (year_summary P df = Inl MissingColumns
                                     \<or> year_summary P df = Inl AggregationError))))"
proof (intro conjI)
  show 1: "rail_usage P files =
     (if List.map_filter (file_summary P) files = [] then Inl NoUsableData
      else Inr (combine_years (List.map_filter (file_summary P) files)))"
    by (rule rail_usage_frames)
  show "file_summary P f = None \<longrightarrow> rail_usage P (fs @ f # gs) = rail_usage P (fs @ gs)"
    unfolding rail_usage_frames by (simp add: map_filter_skip)
  show "file_summary P f = None \<longleftrightarrow>
        f = NotFound \<or> f = ReadError
        \<or> (\<exists>df. f = Frame df \<and> (year_summary P df = Inl MissingColumns
                                  \<or> year_summary P df = Inl AggregationError))"
    by (rule file_summary_None_iff)
  show "year_summary P df = Inl MissingColumns \<longleftrightarrow>
        truthy (find_best_column (columns df) STOP_CANDIDATES) = None
        \<or> truthy (find_best_column (columns df) BOARD_CANDIDATES) = None"
    by (rule year_summary_MissingColumns_iff)
  have "rail_usage P files = Inl NoUsableData \<longleftrightarrow> (\<forall>f\<in>set files. file_summary P f = None)"
    unfolding 1 by (simp add: map_filter_empty_iff)
  then show "rail_usage P files = Inl NoUsableData \<longleftrightarrow>
        (\<forall>f\<in>set files. f = NotFound \<or> f = ReadError
           \<or> (\<exists>df. f = Frame df \<and> (year_summary P df = Inl MissingColumns
                                     \<or> year_summary P df = Inl AggregationError)))"
    unfolding file_summary_None_iff .
qed

lemma year_no_columns: "year_summary P
     \<lparr> columns = [''svc_date'', ''entries''],
       rows = [(\<lambda>c. Missing)(''svc_date'' := Num 20240101, ''entries'' := Num 5)] \<rparr>
   = Inl MissingColumns"
  by (simp add: column_eval rail_eval)

theorem rail_usage_skips_witness:
  "file_summary example_parsers (Frame
     \<lparr> columns = [''svc_date'', ''entries''],
       rows = [(\<lambda>c. Missing)(''svc_date'' := Num 20240101, ''entries'' := Num 5)] \<rparr>) = None
   \<and> rail_usage example_parsers
     [NotFound,
      Frame \<lparr> columns = [''svc_date'', ''entries''],
       rows = [(\<lambda>c. Missing)(''svc_date'' := Num 20240101, ''entries'' := Num 5)] \<rparr>,
      Frame \<lparr> columns = [''svc_date'', ''stop_id'', ''avg_boardings''],
       rows = [(\<lambda>c. Missing)(''svc_date'' := Num 20240101, ''stop_id'' := Text ''A01'', ''avg_boardings'' := Num 300)] \<rparr>]
   = Inr [(Text ''A01'', 300)]"
proof -
  let ?bad = "Frame
     \<lparr> columns = [''svc_date'', ''entries''],
       rows = [(\<lambda>c. Missing)(''svc_date'' := Num 20240101, ''entries'' := Num 5)] \<rparr>"
  let ?good = "Frame \<lparr> columns = [''svc_date'', ''stop_id'', ''avg_boardings''],
       rows = [(\<lambda>c. Missing)(''svc_date'' := Num 20240101, ''stop_id'' := Text ''A01'', ''avg_boardings'' := Num 300)] \<rparr>"
  have n: "file_summary example_parsers ?bad = None"
    by (simp add: file_summary_def year_no_columns)
  have "rail_usage example_parsers ([NotFound] @ ?bad # [?good])
      = rail_usage example_parsers ([NotFound] @ [?good])"
    using n rail_usage_skips [of example_parsers "[]" ?bad "[NotFound]" "[?good]" "\<lparr>columns = [], rows = []\<rparr>"]
    by blast
  moreover have "rail_usage example_parsers ([NotFound] @ [?good]) = Inr [(Text ''A01'', 300)]"
    unfolding rail_usage_frames
    by (simp add: year_2024 List.map_filter_simps file_summary_def combine_years_def
          group_keys_def mean_def)
  ultimately show ?thesis using n by simp
qed

text \<open>
  C5 as stated fails: a table that is readable and has its date, stop and boardings columns,
  but whose boardings are not numbers, raises in the aggregation, contributes nothing, and the
  run aborts with \<open>NoUsableData\<close> although the table was not skipped for missing columns.
\<close>

theorem rail_usage_skips_counterexample:
  "year_summary example_parsers
     \<lparr> columns = [''svc_date'', ''stop_id'', ''avg_boardings''],
       rows = [(\<lambda>c. Missing)(''svc_date'' := Num 20240101, ''stop_id'' := Text ''A01'', ''avg_boardings'' := Text ''abc'')] \<rparr>
   = Inl AggregationError
   \<and> rail_usage example_parsers
     [Frame \<lparr> columns = [''svc_date'', ''stop_id'', ''avg_boardings''],
       rows = [(\<lambda>c. Missing)(''svc_date'' := Num 20240101, ''stop_id'' := Text ''A01'', ''avg_boardings'' := Text ''abc'')] \<rparr>]
   = Inl NoUsableData"
proof -
  have y: "year_summary example_parsers
     \<lparr> columns = [''svc_date'', ''stop_id'', ''avg_boardings''],
       rows = [(\<lambda>c. Missing)(''svc_date'' := Num 20240101, ''stop_id'' := Text ''A01'', ''avg_boardings'' := Text ''abc'')] \<rparr>
   = Inl AggregationError"
    by (simp add: column_eval rail_eval example_parsers_def decimal_literal_def
          unsigned_decimal_def isdigit_def)
  show ?thesis
    unfolding rail_usage_frames
    by (simp add: y List.map_filter_simps file_summary_def)
qed

subsection \<open>String similarity\<close>

lemmas similar_eval = similar_def ratio_def matching_blocks_loop.simps find_longest_match_def
  extend_left.simps extend_right.simps next_regions_def block_size_def b2j_def popular_def
  indices_of_def j2len_get_def lower_def lower_char_def Let_def

lemma next_regions_cap:
  assumes "best_ok r x" "block_size x \<noteq> 0"
  shows "sum_list (map region_cap (next_regions r x)) + block_size x \<le> region_cap r"
proof -
  obtain alo ahi blo bhi where r: "r = (alo, ahi, blo, bhi)" by (cases r)
  obtain i j k where x: "x = (i, j, k)" by (cases x)
  have "alo \<le> i" "i + k \<le> ahi" "blo \<le> j" "j + k \<le> bhi"
    using assms by (auto simp: best_ok_def block_size_def r x)
  then show ?thesis by (auto simp: next_regions_def region_cap_def block_size_def r x)
qed

lemma matching_blocks_loop_sum:
  "sum_list (map block_size (matching_blocks_loop a b queue blocks))
     \<le> sum_list (map block_size blocks) + sum_list (map region_cap queue)"
proof (induction a b queue blocks rule: matching_blocks_loop.induct)
  case (1 a b blocks)
  then show ?case by (simp add: matching_blocks_loop.simps)
next
  case (2 a b r queue blocks)
  let ?x = "find_longest_match a b r"
  show ?case
  proof (cases "block_size ?x \<noteq> 0")
    case True
    have "sum_list (map block_size (matching_blocks_loop a b (r # queue) blocks))
        = sum_list (map block_size
            (matching_blocks_loop a b (next_regions r ?x @ queue) (blocks @ [?x])))"
      using True by (subst matching_blocks_loop.simps) simp
    also have "\<dots> \<le> sum_list (map block_size (blocks @ [?x]))
        + sum_list (map region_cap (next_regions r ?x @ queue))"
      by (rule "2.IH"(1) [OF True])
    also have "\<dots> = sum_list (map block_size blocks) + sum_list (map region_cap queue)
        + (sum_list (map region_cap (next_regions r ?x)) + block_size ?x)"
      by simp
    also have "\<dots> \<le> sum_list (map block_size blocks) + sum_list (map region_cap queue)
        + region_cap r"
      using next_regions_cap [OF find_longest_match_ok True] by simp
    finally show ?thesis by simp
  next
    case False
    have "sum_list (map block_size (matching_blocks_loop a b (r # queue) blocks))
        = sum_list (map block_size (matching_blocks_loop a b queue blocks))"
      using False by (subst matching_blocks_loop.simps) simp
    also have "\<dots> \<le> sum_list (map block_size blocks) + sum_list (map region_cap queue)"
      by (rule "2.IH"(2) [OF False])
    finally show ?thesis by simp
  qed
qed

lemma matches_le_min:
  "sum_list (map block_size (matching_blocks_loop a b [(0, length a, 0, length b)] []))
     \<le> min (length a) (length b)"
  using matching_blocks_loop_sum [of a b "[(0, length a, 0, length b)]" "[]"]
  by (simp add: region_cap_def)

lemma frac_le_one:
  fixes x y :: real
  assumes "x \<le> y" "0 < y"
  shows "x / y \<le> 1"
  using assms by simp

lemma ratio_range: "0 \<le> ratio a b" "ratio a b \<le> 1"
proof -
  let ?m = "sum_list (map block_size (matching_blocks_loop a b [(0, length a, 0, length b)] []))"
  show "0 \<le> ratio a b" by (simp add: ratio_def Let_def)
  have "2 * ?m \<le> length a + length b" using matches_le_min [of a b] by simp
  then have h: "2 * real ?m \<le> real (length a + length b)"
    by (metis of_nat_le_iff of_nat_mult of_nat_numeral)
  show "ratio a b \<le> 1"
  proof (cases "length a + length b = 0")
    case True
    then show ?thesis by (simp add: ratio_def Let_def)
  next
    case False
    then have "0 < length a + length b" by arith
    then have pos: "0 < real (length a + length b)" by (rule iffD2 [OF of_nat_0_less_iff])
    have le: "2 * real ?m / real (length a + length b) \<le> 1"
      by (rule frac_le_one [OF h pos])
    have "ratio a b = 2 * real ?m / real (length a + length b)"
      using False by (simp add: ratio_def Let_def)
    then show ?thesis using le by (simp only:)
  qed
qed


lemma lower_char_idem: "lower_char (lower_char c) = lower_char c"
  by (simp add: lower_char_def)

lemma lower_idem: "lower (lower s) = lower s"
  by (simp add: lower_def lower_char_idem)

text \<open>
  Claim C9, as the code has it. The similarity of two strings lies in \<open>[0, 1]\<close> and depends
  on the case-folded strings only. It is not symmetric.
\<close>

theorem similar_range:
  "0 \<le> similar a b \<and> similar a b \<le> 1 \<and> similar (lower a) (lower b) = similar a b"
  by (simp add: similar_def ratio_range lower_idem)

theorem similar_range_witness:
  "similar ''Union Station'' ''Union Sta Plaza'' = 9 / 14
   \<and> 0 \<le> similar ''Union Station'' ''Union Sta Plaza''
   \<and> similar ''Union Station'' ''Union Sta Plaza'' \<le> 1"
proof -
  have "similar ''Union Station'' ''Union Sta Plaza'' = 9 / 14" by (simp add: similar_eval)
  then show ?thesis using similar_range [of "''Union Station''" "''Union Sta Plaza''"] by blast
qed

text \<open>
  C9 as stated fails: the matcher is not symmetric. \<open>tide\<close> against \<open>diet\<close> finds the one
  block \<open>t\<close>, \<open>diet\<close> against \<open>tide\<close> the two blocks \<open>d\<close> and \<open>e\<close>.
\<close>

theorem similar_range_counterexample:
  "similar ''tide'' ''diet'' = 1 / 4 \<and> similar ''diet'' ''tide'' = 1 / 2"
  by (simp add: similar_eval)

subsection \<open>Bus hotspots\<close>

lemma set_group_keys: "set (group_keys ks) = set ks"
  by (simp add: group_keys_def)

lemma distinct_group_keys: "distinct (group_keys ks)"
  by (simp add: group_keys_def)

lemma sorted_group_keys: "sorted (group_keys ks)"
  by (simp add: group_keys_def)

lemma agg_cell_key: "(LAT_R (agg_cell bus_df k), LON_R (agg_cell bus_df k)) = k"
  by (simp add: agg_cell_def Let_def)

lemma agg_keys: "map (\<lambda>h. (LAT_R h, LON_R h)) (agg bus_df) = group_keys (map round_key bus_df)"
  by (simp add: agg_def agg_cell_key comp_def)

lemma in_agg:
  assumes "h \<in> set (agg bus_df)"
  shows "h = agg_cell bus_df (LAT_R h, LON_R h)" and "\<exists>r\<in>set bus_df. round_key r = (LAT_R h, LON_R h)"
proof -
  from assms obtain k where k: "k \<in> set (map round_key bus_df)" "h = agg_cell bus_df k"
    by (auto simp: agg_def set_group_keys)
  have "(LAT_R h, LON_R h) = k" unfolding k(2) by (rule agg_cell_key)
  with k show "h = agg_cell bus_df (LAT_R h, LON_R h)"
    and "\<exists>r\<in>set bus_df. round_key r = (LAT_R h, LON_R h)" by auto
qed

lemma mode_values_least:
  assumes "vs \<noteq> []"
  shows "\<exists>n ms. mode_values vs = n # ms \<and> n \<in> set vs
           \<and> (\<forall>m\<in>set vs. count_list vs m \<le> count_list vs n)
           \<and> (\<forall>m\<in>set vs. count_list vs m = count_list vs n \<longrightarrow> n \<le> m)"
proof -
  define M where "M = Max (set (map (count_list vs) vs))"
  define S where "S = sort (remdups (filter (\<lambda>v. count_list vs v = M) vs))"
  have fin: "finite (set (map (count_list vs) vs))" and ne: "set (map (count_list vs) vs) \<noteq> {}"
    using assms by auto
  have "M \<in> set (map (count_list vs) vs)" unfolding M_def by (rule Max_in [OF fin ne])
  then obtain v where v: "v \<in> set vs" "count_list vs v = M" by auto
  have le: "count_list vs m \<le> M" if "m \<in> set vs" for m
    unfolding M_def using that by (intro Max_ge) auto
  have setS: "set S = {v \<in> set vs. count_list vs v = M}" by (auto simp: S_def)
  with v have "S \<noteq> []" by auto
  then obtain n ms where S: "S = n # ms" by (cases S) auto
  have "sorted S" by (simp add: S_def)
  then have least: "\<forall>m\<in>set S. n \<le> m" unfolding S by auto
  have n: "n \<in> set vs" "count_list vs n = M" using setS S by auto
  have mv: "mode_values vs = n # ms"
    using assms S by (simp add: mode_values_def Let_def M_def S_def)
  have "\<forall>m\<in>set vs. count_list vs m \<le> count_list vs n" using le n(2) by simp
  moreover have "\<forall>m\<in>set vs. count_list vs m = count_list vs n \<longrightarrow> n \<le> m"
    using least setS n(2) by auto
  ultimately show ?thesis using mv n(1) by blast
qed

lemma dropna_empty_hd:
  assumes "dropna x = []"
  shows "(case x of v # vs \<Rightarrow> v | [] \<Rightarrow> None) = None"
proof (cases x)
  case Nil
  then show ?thesis by simp
next
  case (Cons v vs)
  with assms have "v = None" by (cases v) (simp_all add: dropna_def)
  with Cons show ?thesis by simp
qed

lemma rep_stop_spec:
  "(let names = dropna x
    in if names = [] then rep_stop x = None
       else \<exists>n\<in>set names. rep_stop x = Some n
              \<and> (\<forall>m\<in>set names. count_list names m \<le> count_list names n)
              \<and> (\<forall>m\<in>set names. count_list names m = count_list names n \<longrightarrow> n \<le> m))"
proof (cases "dropna x = []")
  case True
  then show ?thesis
    by (simp add: rep_stop_def mode_values_def dropna_empty_hd)
next
  case False
  from mode_values_least [OF False] obtain n ms where
    "mode_values (dropna x) = n # ms" "n \<in> set (dropna x)"
    "\<forall>m\<in>set (dropna x). count_list (dropna x) m \<le> count_list (dropna x) n"
    "\<forall>m\<in>set (dropna x). count_list (dropna x) m = count_list (dropna x) n \<longrightarrow> n \<le> m"
    by blast
  then show ?thesis using False by (auto simp: rep_stop_def Let_def)
qed

lemma unique_spec:
  "distinct (unique xs)" "set (unique xs) = set xs"
  "unique (xs @ [x]) = (if x \<in> set xs then unique xs else unique xs @ [x])"
  by (simp_all add: unique_def)

lemma round_key_example:
  assumes "LAT r1 = 38.90001" "LON r1 = - 77.03001" "LAT r2 = 38.90004" "LON r2 = - 77.03004"
    "LAT r3 = 38.91" "LON r3 = - 77.04"
  shows "round_key r1 = round_key r2" "round_key r3 \<noteq> round_key r1"
  unfolding round_key_def assms
  by (simp_all add: py_round_def rint_def Let_def HOTSPOT_ROUND_DECIMALS_def)

text \<open>
  Claim C7, as the code has it. Observations are grouped by latitude and longitude, each
  rounded to 4 decimals. Every hotspot is the cell of some observation, carries the sum of the
  boardings of its cell (at least \<open>HOTSPOT_MIN_BOARDINGS\<close>), a most frequent stop name of the
  cell, the least such name in string order when several are equally frequent, and the first
  five distinct route identifiers of the cell in first-seen order, joined by commas. Every cell
  whose sum reaches the minimum yields a hotspot, and no two hotspots share a cell.
  Observations at \<open>(38.90001, -77.03001)\<close> and \<open>(38.90004, -77.03004)\<close> fall into one cell,
  one at \<open>(38.91, -77.04)\<close> into another.
\<close>

theorem bus_hotspots_clusters:
  "(h \<in> set (bus_hotspots bus_df) \<longrightarrow>
      (\<exists>r\<in>set bus_df. round_key r = (LAT_R h, LON_R h))
      \<and> HOT_SUM_PASSENGERS_ON h
          = sum_skipna (map SUM_PASSENGERS_ON (cell_rows bus_df (LAT_R h, LON_R h)))
      \<and> HOTSPOT_MIN_BOARDINGS \<le> HOT_SUM_PASSENGERS_ON h
      \<and> (let names = dropna (map STOP (cell_rows bus_df (LAT_R h, LON_R h)))
         in if names = [] then REP_STOP h = None
            else \<exists>n\<in>set names. REP_STOP h = Some n
                   \<and> (\<forall>m\<in>set names. count_list names m \<le> count_list names n)
                   \<and> (\<forall>m\<in>set names. count_list names m = count_list names n \<longrightarrow> n \<le> m))
      \<and> ROUTES h = join '', '' (take 5 (unique
           (map astype_str (map ROUTE_NAME (cell_rows bus_df (LAT_R h, LON_R h)))))))
   \<and> (r \<in> set bus_df
        \<and> HOTSPOT_MIN_BOARDINGS \<le> sum_skipna (map SUM_PASSENGERS_ON (cell_rows bus_df (round_key r)))
      \<longrightarrow> (\<exists>h\<in>set (bus_hotspots bus_df). (LAT_R h, LON_R h) = round_key r))
   \<and> distinct (map (\<lambda>h. (LAT_R h, LON_R h)) (bus_hotspots bus_df))
   \<and> (distinct (unique xs) \<and> set (unique xs) = set xs
        \<and> unique (xs @ [x]) = (if x \<in> set xs then unique xs else unique xs @ [x]))
   \<and> (LAT r1 = 38.90001 \<and> LON r1 = - 77.03001 \<and> LAT r2 = 38.90004 \<and> LON r2 = - 77.03004
        \<and> LAT r3 = 38.91 \<and> LON r3 = - 77.04
      \<longrightarrow> round_key r1 = round_key r2 \<and> round_key r3 \<noteq> round_key r1)"
proof (intro conjI impI)
  assume h: "h \<in> set (bus_hotspots bus_df)"
  then have ha: "h \<in> set (agg bus_df)" and hm: "HOTSPOT_MIN_BOARDINGS \<le> HOT_SUM_PASSENGERS_ON h"
    by (simp_all add: bus_hotspots_def)
  let ?k = "(LAT_R h, LON_R h)"
  have eq: "h = agg_cell bus_df ?k" by (rule in_agg(1) [OF ha])
  show "\<exists>r\<in>set bus_df. round_key r = ?k" by (rule in_agg(2) [OF ha])
  show "HOTSPOT_MIN_BOARDINGS \<le> HOT_SUM_PASSENGERS_ON h" by (rule hm)
  have "HOT_SUM_PASSENGERS_ON (agg_cell bus_df ?k)
          = sum_skipna (map SUM_PASSENGERS_ON (cell_rows bus_df ?k))"
    by (simp add: agg_cell_def Let_def)
  then show "HOT_SUM_PASSENGERS_ON h = sum_skipna (map SUM_PASSENGERS_ON (cell_rows bus_df ?k))"
    using eq by simp
  have "REP_STOP (agg_cell bus_df ?k) = rep_stop (map STOP (cell_rows bus_df ?k))"
    by (simp add: agg_cell_def Let_def)
  then have rs: "REP_STOP h = rep_stop (map STOP (cell_rows bus_df ?k))" using eq by simp
  show "let names = dropna (map STOP (cell_rows bus_df ?k))
         in if names = [] then REP_STOP h = None
            else \<exists>n\<in>set names. REP_STOP h = Some n
                   \<and> (\<forall>m\<in>set names. count_list names m \<le> count_list names n)
                   \<and> (\<forall>m\<in>set names. count_list names m = count_list names n \<longrightarrow> n \<le> m)"
    unfolding rs by (rule rep_stop_spec)
  have "ROUTES (agg_cell bus_df ?k) = routes_label (map ROUTE_NAME (cell_rows bus_df ?k))"
    by (simp add: agg_cell_def Let_def)
  then show "ROUTES h = join '', '' (take 5 (unique
           (map astype_str (map ROUTE_NAME (cell_rows bus_df ?k)))))"
    using eq by (simp add: routes_label_def)
next
  assume a: "r \<in> set bus_df
        \<and> HOTSPOT_MIN_BOARDINGS \<le> sum_skipna (map SUM_PASSENGERS_ON (cell_rows bus_df (round_key r)))"
  let ?h = "agg_cell bus_df (round_key r)"
  have "?h \<in> set (agg bus_df)" using a by (simp add: agg_def set_group_keys)
  moreover have "HOT_SUM_PASSENGERS_ON ?h
      = sum_skipna (map SUM_PASSENGERS_ON (cell_rows bus_df (round_key r)))"
    by (simp add: agg_cell_def Let_def)
  ultimately have "?h \<in> set (bus_hotspots bus_df)" using a by (simp add: bus_hotspots_def)
  moreover have "(LAT_R ?h, LON_R ?h) = round_key r" by (rule agg_cell_key)
  ultimately show "\<exists>h\<in>set (bus_hotspots bus_df). (LAT_R h, LON_R h) = round_key r" by blast
next
  have "distinct (map (\<lambda>h. (LAT_R h, LON_R h)) (agg bus_df))"
    unfolding agg_keys by (rule distinct_group_keys)
  then show "distinct (map (\<lambda>h. (LAT_R h, LON_R h)) (bus_hotspots bus_df))"
    unfolding bus_hotspots_def by (rule distinct_map_filter)
next
  show "distinct (unique xs)" by (rule unique_spec)
  show "set (unique xs) = set xs" by (rule unique_spec)
  show "unique (xs @ [x]) = (if x \<in> set xs then unique xs else unique xs @ [x])"
    by (rule unique_spec)
next
  assume "LAT r1 = 38.90001 \<and> LON r1 = - 77.03001 \<and> LAT r2 = 38.90004 \<and> LON r2 = - 77.03004
        \<and> LAT r3 = 38.91 \<and> LON r3 = - 77.04"
  then have a: "LAT r1 = 38.90001" "LON r1 = - 77.03001" "LAT r2 = 38.90004" "LON r2 = - 77.03004"
    "LAT r3 = 38.91" "LON r3 = - 77.04" by blast+
  show "round_key r1 = round_key r2" by (rule round_key_example(1) [OF a])
  show "round_key r3 \<noteq> round_key r1" by (rule round_key_example(2) [OF a])
qed


lemmas hotspot_eval =
  bus_hotspots_def agg_def group_keys_def agg_cell_def cell_rows_def round_key_def py_round_def
  rint_def Let_def HOTSPOT_ROUND_DECIMALS_def HOTSPOT_MIN_BOARDINGS_def sum_skipna_def
  rep_stop_def routes_label_def unique_def astype_str_def mode_values_def dropna_def

theorem bus_hotspots_clusters_witness:
  "bus_hotspots
     [\<lparr>STOP = Some ''K ST + 16TH ST'', LAT = 38.90001, LON = - 77.03001, SUM_PASSENGERS_ON = Some 80, ROUTE_NAME = Some ''D6''\<rparr>,
      \<lparr>STOP = Some ''K ST + 16TH ST'', LAT = 38.90004, LON = - 77.03004, SUM_PASSENGERS_ON = Some 70, ROUTE_NAME = Some ''D4''\<rparr>,
      \<lparr>STOP = Some ''U ST'', LAT = 38.91, LON = - 77.04, SUM_PASSENGERS_ON = Some 120, ROUTE_NAME = None\<rparr>]
   = [\<lparr>LAT_R = 38.9, LON_R = - 77.03, HOT_SUM_PASSENGERS_ON = 150,
        REP_STOP = Some ''K ST + 16TH ST'', ROUTES = ''D6, D4''\<rparr>,
      \<lparr>LAT_R = 38.91, LON_R = - 77.04, HOT_SUM_PASSENGERS_ON = 120,
        REP_STOP = Some ''U ST'', ROUTES = ''nan''\<rparr>]
   \<and> round_key \<lparr>STOP = Some ''K ST + 16TH ST'', LAT = 38.90001, LON = - 77.03001, SUM_PASSENGERS_ON = Some 80, ROUTE_NAME = Some ''D6''\<rparr>
     = round_key \<lparr>STOP = Some ''K ST + 16TH ST'', LAT = 38.90004, LON = - 77.03004, SUM_PASSENGERS_ON = Some 70, ROUTE_NAME = Some ''D4''\<rparr>
   \<and> round_key \<lparr>STOP = Some ''U ST'', LAT = 38.91, LON = - 77.04, SUM_PASSENGERS_ON = Some 120, ROUTE_NAME = None\<rparr>
     \<noteq> round_key \<lparr>STOP = Some ''K ST + 16TH ST'', LAT = 38.90001, LON = - 77.03001, SUM_PASSENGERS_ON = Some 80, ROUTE_NAME = Some ''D6''\<rparr>"
proof -
  let ?r1 = "\<lparr>STOP = Some ''K ST + 16TH ST'', LAT = 38.90001, LON = - 77.03001, SUM_PASSENGERS_ON = Some 80, ROUTE_NAME = Some ''D6''\<rparr>"
  let ?r2 = "\<lparr>STOP = Some ''K ST + 16TH ST'', LAT = 38.90004, LON = - 77.03004, SUM_PASSENGERS_ON = Some 70, ROUTE_NAME = Some ''D4''\<rparr>"
  let ?r3 = "\<lparr>STOP = Some ''U ST'', LAT = 38.91, LON = - 77.04, SUM_PASSENGERS_ON = Some 120, ROUTE_NAME = None\<rparr>"
  have "LAT ?r1 = 38.90001 \<and> LON ?r1 = - 77.03001 \<and> LAT ?r2 = 38.90004 \<and> LON ?r2 = - 77.03004
        \<and> LAT ?r3 = 38.91 \<and> LON ?r3 = - 77.04" by simp
  then have k: "round_key ?r1 = round_key ?r2 \<and> round_key ?r3 \<noteq> round_key ?r1"
    using bus_hotspots_clusters [of "agg_cell [] (0, 0)" "[]" ?r1 "[] :: string list" "[]" ?r1 ?r2 ?r3]
    by blast
  have e: "bus_hotspots [?r1, ?r2, ?r3]
   = [\<lparr>LAT_R = 38.9, LON_R = - 77.03, HOT_SUM_PASSENGERS_ON = 150,
        REP_STOP = Some ''K ST + 16TH ST'', ROUTES = ''D6, D4''\<rparr>,
      \<lparr>LAT_R = 38.91, LON_R = - 77.04, HOT_SUM_PASSENGERS_ON = 120,
        REP_STOP = Some ''U ST'', ROUTES = ''nan''\<rparr>]"
    by (simp add: hotspot_eval)
  show ?thesis using k e by blast
qed

text \<open>
  C7 as stated fails in the tie-break: of two equally frequent names in one cell the
  representative is \<open>A ST\<close>, the smaller one, although \<open>B ST\<close> is encountered first.
\<close>

theorem bus_hotspots_clusters_counterexample:
  "map REP_STOP (bus_hotspots
     [\<lparr>STOP = Some ''B ST'', LAT = 38.9, LON = - 77.03, SUM_PASSENGERS_ON = Some 60, ROUTE_NAME = Some ''D6''\<rparr>,
      \<lparr>STOP = Some ''A ST'', LAT = 38.9, LON = - 77.03, SUM_PASSENGERS_ON = Some 60, ROUTE_NAME = Some ''D6''\<rparr>])
   = [Some ''A ST'']"
  by (simp add: hotspot_eval)

subsection \<open>Gap analysis\<close>

text \<open>Over the reals the haversine quantity lies in \<open>[0, 1]\<close>, so the distance never raises.\<close>

lemma sin_half_squared: "(sin (x / 2))\<^sup>2 = (1 - cos x) / 2" for x :: real
  using cos_double_sin [of "x / 2"] by simp

lemma convex_split:
  fixes p q t :: real
  shows "(1 - (p + q)) / 2 + p * t = (1 - t) * ((1 - (p + q)) / 2) + t * ((1 + (p - q)) / 2)"
  by (simp add: field_simps)

lemma haversine_a_convex:
  "haversine_a lon1 lat1 lon2 lat2 =
     (1 - (1 - cos (radians lon2 - radians lon1)) / 2) * ((1 - cos (radians lat2 - radians lat1)) / 2)
     + ((1 - cos (radians lon2 - radians lon1)) / 2) * ((1 + cos (radians lat2 + radians lat1)) / 2)"
proof -
  let ?p = "cos (radians lat2) * cos (radians lat1)"
  let ?q = "sin (radians lat2) * sin (radians lat1)"
  let ?t = "(1 - cos (radians lon2 - radians lon1)) / 2"
  have "haversine_a lon1 lat1 lon2 lat2 = (1 - (?p + ?q)) / 2 + ?p * ?t"
    unfolding haversine_a_def Let_def sin_half_squared cos_diff [of "radians lat2" "radians lat1"]
    by (simp add: mult.commute)
  also have "\<dots> = (1 - ?t) * ((1 - (?p + ?q)) / 2) + ?t * ((1 + (?p - ?q)) / 2)"
    by (rule convex_split)
  finally show ?thesis
    unfolding cos_diff [of "radians lat2" "radians lat1"] cos_add [of "radians lat2" "radians lat1"] .
qed

lemma convex_unit:
  fixes t A B :: real
  assumes "0 \<le> t" "t \<le> 1" "0 \<le> A" "A \<le> 1" "0 \<le> B" "B \<le> 1"
  shows "0 \<le> (1 - t) * A + t * B" and "(1 - t) * A + t * B \<le> 1"
proof -
  show "0 \<le> (1 - t) * A + t * B" using assms by simp
  have "(1 - t) * A \<le> (1 - t) * 1" using assms by (intro mult_left_mono) auto
  moreover have "t * B \<le> t * 1" using assms by (intro mult_left_mono) auto
  ultimately show "(1 - t) * A + t * B \<le> 1" by simp
qed

lemma half_unit:
  fixes c :: real
  assumes "- 1 \<le> c" "c \<le> 1"
  shows "0 \<le> (1 - c) / 2" "(1 - c) / 2 \<le> 1" "0 \<le> (1 + c) / 2" "(1 + c) / 2 \<le> 1"
  using assms by simp_all

lemma haversine_a_range:
  "0 \<le> haversine_a lon1 lat1 lon2 lat2" "haversine_a lon1 lat1 lon2 lat2 \<le> 1"
proof -
  let ?t = "(1 - cos (radians lon2 - radians lon1)) / 2"
  let ?A = "(1 - cos (radians lat2 - radians lat1)) / 2"
  let ?B = "(1 + cos (radians lat2 + radians lat1)) / 2"
  have t: "0 \<le> ?t" "?t \<le> 1" by (rule half_unit; simp)+
  have A: "0 \<le> ?A" "?A \<le> 1" by (rule half_unit; simp)+
  have B: "0 \<le> ?B" "?B \<le> 1" by (rule half_unit; simp)+
  show "0 \<le> haversine_a lon1 lat1 lon2 lat2"
    unfolding haversine_a_convex using convex_unit(1) [OF t A B] .
  show "haversine_a lon1 lat1 lon2 lat2 \<le> 1"
    unfolding haversine_a_convex using convex_unit(2) [OF t A B] .
qed

lemma haversine_miles_total:
  "haversine_miles (LON_R b) (LAT_R b) (RAIL_LON r) (RAIL_LAT r) = Some (great_circle b r)"
proof -
  let ?a = "haversine_a (LON_R b) (LAT_R b) (RAIL_LON r) (RAIL_LAT r)"
  have "0 \<le> ?a" "?a \<le> 1" by (rule haversine_a_range)+
  then have "\<not> (?a < 0 \<or> 1 < sqrt ?a)" by (simp add: real_sqrt_le_1_iff not_less)
  then show ?thesis
    by (simp add: haversine_miles_def great_circle_def Let_def)
qed


lemma nearest_rail_Cons:
  "nearest_rail (LON_R b) (LAT_R b) (r # rs) (min_dist, nearest_station) =
     (if lt_ext (great_circle b r) min_dist
      then nearest_rail (LON_R b) (LAT_R b) rs (Fin (great_circle b r), Some (STATION_NAME r))
      else nearest_rail (LON_R b) (LAT_R b) rs (min_dist, nearest_station))"
  by (simp add: haversine_miles_total)

lemma nearest_rail_from_Fin:
  assumes "r0 \<in> set seen" and "\<forall>r'\<in>set seen. great_circle b r0 \<le> great_circle b r'"
  shows "\<exists>r\<in>set (seen @ rs).
           nearest_rail (LON_R b) (LAT_R b) rs (Fin (great_circle b r0), Some (STATION_NAME r0))
             = (Fin (great_circle b r), Some (STATION_NAME r))
           \<and> (\<forall>r'\<in>set (seen @ rs). great_circle b r \<le> great_circle b r')"
  using assms
proof (induction rs arbitrary: r0 seen)
  case Nil
  then show ?case by auto
next
  case (Cons r rs)
  show ?case
  proof (cases "great_circle b r < great_circle b r0")
    case True
    have "r \<in> set (seen @ [r])" by simp
    moreover have "\<forall>r'\<in>set (seen @ [r]). great_circle b r \<le> great_circle b r'"
      using True Cons.prems by fastforce
    ultimately have "\<exists>x\<in>set ((seen @ [r]) @ rs).
           nearest_rail (LON_R b) (LAT_R b) rs (Fin (great_circle b r), Some (STATION_NAME r))
             = (Fin (great_circle b x), Some (STATION_NAME x))
           \<and> (\<forall>r'\<in>set ((seen @ [r]) @ rs). great_circle b x \<le> great_circle b r')"
      by (rule Cons.IH)
    then show ?thesis using True by (simp add: nearest_rail_Cons del: nearest_rail.simps)
  next
    case False
    have "r0 \<in> set (seen @ [r])" using Cons.prems by simp
    moreover have "\<forall>r'\<in>set (seen @ [r]). great_circle b r0 \<le> great_circle b r'"
      using False Cons.prems by fastforce
    ultimately have "\<exists>x\<in>set ((seen @ [r]) @ rs).
           nearest_rail (LON_R b) (LAT_R b) rs (Fin (great_circle b r0), Some (STATION_NAME r0))
             = (Fin (great_circle b x), Some (STATION_NAME x))
           \<and> (\<forall>r'\<in>set ((seen @ [r]) @ rs). great_circle b x \<le> great_circle b r')"
      by (rule Cons.IH)
    then show ?thesis using False by (simp add: nearest_rail_Cons del: nearest_rail.simps)
  qed
qed

lemma nearest_rail_result:
  assumes "rs \<noteq> []"
  shows "\<exists>r\<in>set rs.
           nearest_rail (LON_R b) (LAT_R b) rs (Inf, None)
             = (Fin (min_distance b rs), Some (STATION_NAME r))
           \<and> great_circle b r = min_distance b rs"
proof -
  from assms obtain r0 rs' where rs: "rs = r0 # rs'" by (cases rs) auto
  have "\<exists>r\<in>set ([r0] @ rs').
           nearest_rail (LON_R b) (LAT_R b) rs' (Fin (great_circle b r0), Some (STATION_NAME r0))
             = (Fin (great_circle b r), Some (STATION_NAME r))
           \<and> (\<forall>r'\<in>set ([r0] @ rs'). great_circle b r \<le> great_circle b r')"
    by (rule nearest_rail_from_Fin) auto
  then obtain r where r: "r \<in> set rs"
    "nearest_rail (LON_R b) (LAT_R b) rs' (Fin (great_circle b r0), Some (STATION_NAME r0))
       = (Fin (great_circle b r), Some (STATION_NAME r))"
    "\<forall>r'\<in>set rs. great_circle b r \<le> great_circle b r'"
    unfolding rs by auto
  have "Min (set (map (great_circle b) rs)) = great_circle b r"
    using r(1,3) by (intro Min_eqI) auto
  then have m: "min_distance b rs = great_circle b r" by (simp add: min_distance_def)
  have "nearest_rail (LON_R b) (LAT_R b) rs (Inf, None) = (Fin (great_circle b r), Some (STATION_NAME r))"
    unfolding rs using r(2) by (simp add: nearest_rail_Cons del: nearest_rail.simps)
  with m r(1) show ?thesis by auto
qed

lemma gap_candidate_empty:
  "gap_candidate [] b =
     (if CANDIDATE_MIN_BOARDINGS \<le> HOT_SUM_PASSENGERS_ON b
      then Some \<lparr> Name = REP_STOP b, Lat = LAT_R b, Lon = LON_R b,
                  Bus_Boardings = HOT_SUM_PASSENGERS_ON b, Nearest_Rail = Some ''None'',
                  Distance_Miles = None, Routes = ROUTES b \<rparr>
      else None)"
  by (simp add: gap_candidate_def Let_def)

lemma gap_candidate_nonempty:
  assumes "rs \<noteq> []"
  shows "\<exists>r\<in>set rs. great_circle b r = min_distance b rs \<and>
     gap_candidate rs b =
     (if CANDIDATE_MIN_BOARDINGS \<le> HOT_SUM_PASSENGERS_ON b \<and> MIN_DISTANCE_MILES < min_distance b rs
      then Some \<lparr> Name = REP_STOP b, Lat = LAT_R b, Lon = LON_R b,
                  Bus_Boardings = HOT_SUM_PASSENGERS_ON b, Nearest_Rail = Some (STATION_NAME r),
                  Distance_Miles = Some (py_round (min_distance b rs) 2), Routes = ROUTES b \<rparr>
      else None)"
proof -
  from nearest_rail_result [OF assms, of b] obtain r where r: "r \<in> set rs"
    "nearest_rail (LON_R b) (LAT_R b) rs (Inf, None) = (Fin (min_distance b rs), Some (STATION_NAME r))"
    "great_circle b r = min_distance b rs" by blast
  have "gap_candidate rs b =
     (if CANDIDATE_MIN_BOARDINGS \<le> HOT_SUM_PASSENGERS_ON b \<and> MIN_DISTANCE_MILES < min_distance b rs
      then Some \<lparr> Name = REP_STOP b, Lat = LAT_R b, Lon = LON_R b,
                  Bus_Boardings = HOT_SUM_PASSENGERS_ON b, Nearest_Rail = Some (STATION_NAME r),
                  Distance_Miles = Some (py_round (min_distance b rs) 2), Routes = ROUTES b \<rparr>
      else None)"
    by (simp add: gap_candidate_def r(2) Let_def)
  with r(1,3) show ?thesis by blast
qed

lemma potential_stations_map_filter:
  "potential_stations rs bs = List.map_filter (gap_candidate rs) bs"
  by (induction bs) (auto simp: List.map_filter_simps split: option.splits)


lemma great_circle_equator:
  assumes "LAT_R b = 0" "LON_R b = 0" "RAIL_LAT r = 0" "RAIL_LON r = x" "0 \<le> x" "x \<le> 180"
  shows "great_circle b r = x * pi / 180 * 3956"
proof -
  define y where "y = x * pi / 180 / 2"
  have y: "0 \<le> y" "y \<le> pi / 2" using assms(5,6) by (simp_all add: y_def field_simps)
  have a: "haversine_a (LON_R b) (LAT_R b) (RAIL_LON r) (RAIL_LAT r) = (sin y)\<^sup>2"
    using assms(1-4) by (simp add: haversine_a_def radians_def Let_def y_def)
  have "0 \<le> sin y" using y pi_ge_zero by (intro sin_ge_zero) linarith+
  then have s: "sqrt ((sin y)\<^sup>2) = sin y" by simp
  have t: "arcsin (sin y) = y" using y by (intro arcsin_sin) linarith+
  have "great_circle b r = 2 * y * 3956" unfolding great_circle_def a s t ..
  then show ?thesis by (simp add: y_def)
qed

text \<open>
  Claim C1, as the code has it. For a hotspot \<open>b\<close> the loop computes the least great-circle
  distance to the geocoded stations, and \<open>b\<close> yields a candidate exactly when its boardings
  reach \<open>CANDIDATE_MIN_BOARDINGS\<close> and either there is no geocoded station or that least
  distance exceeds \<open>MIN_DISTANCE_MILES\<close>. With no geocoded station the candidate carries the
  string \<open>None\<close> as its nearest-rail name and a null distance; otherwise it carries the name of
  a station at the least distance and that distance rounded to two decimals. Under the
  defaults 500 and 1.0, 600 boardings at 1.5 miles qualify and at 0.5 miles do not.
\<close>

theorem gap_candidate_criteria:
  "(gap_candidate rs b \<noteq> None \<longleftrightarrow>
      CANDIDATE_MIN_BOARDINGS \<le> HOT_SUM_PASSENGERS_ON b
      \<and> (rs = [] \<or> MIN_DISTANCE_MILES < min_distance b rs))
   \<and> (rs = [] \<and> CANDIDATE_MIN_BOARDINGS \<le> HOT_SUM_PASSENGERS_ON b \<longrightarrow>
        (\<exists>c. gap_candidate rs b = Some c \<and> Nearest_Rail c = Some ''None''
             \<and> Distance_Miles c = None))
   \<and> (rs \<noteq> [] \<longrightarrow>
        (\<forall>c. gap_candidate rs b = Some c \<longrightarrow>
             Distance_Miles c = Some (py_round (min_distance b rs) 2)
             \<and> (\<exists>r\<in>set rs. Nearest_Rail c = Some (STATION_NAME r)
                          \<and> great_circle b r = min_distance b rs)))
   \<and> (rs \<noteq> [] \<and> HOT_SUM_PASSENGERS_ON b = 600 \<and> min_distance b rs = 1.5 \<longrightarrow>
        gap_candidate rs b \<noteq> None)
   \<and> (rs \<noteq> [] \<and> HOT_SUM_PASSENGERS_ON b = 600 \<and> min_distance b rs = 0.5 \<longrightarrow>
        gap_candidate rs b = None)
   \<and> potential_stations rs bs = List.map_filter (gap_candidate rs) bs"
proof (cases "rs = []")
  case True
  then show ?thesis
    by (simp add: gap_candidate_empty potential_stations_map_filter)
next
  case False
  from gap_candidate_nonempty [OF False, of b] obtain r where r: "r \<in> set rs"
    "great_circle b r = min_distance b rs"
    "gap_candidate rs b =
     (if CANDIDATE_MIN_BOARDINGS \<le> HOT_SUM_PASSENGERS_ON b \<and> MIN_DISTANCE_MILES < min_distance b rs
      then Some \<lparr> Name = REP_STOP b, Lat = LAT_R b, Lon = LON_R b,
                  Bus_Boardings = HOT_SUM_PASSENGERS_ON b, Nearest_Rail = Some (STATION_NAME r),
                  Distance_Miles = Some (py_round (min_distance b rs) 2), Routes = ROUTES b \<rparr>
      else None)" by blast
  have 1: "gap_candidate rs b \<noteq> None \<longleftrightarrow>
      CANDIDATE_MIN_BOARDINGS \<le> HOT_SUM_PASSENGERS_ON b
      \<and> (rs = [] \<or> MIN_DISTANCE_MILES < min_distance b rs)"
    using False by (simp add: r(3))
  have 3: "\<forall>c. gap_candidate rs b = Some c \<longrightarrow>
             Distance_Miles c = Some (py_round (min_distance b rs) 2)
             \<and> (\<exists>r\<in>set rs. Nearest_Rail c = Some (STATION_NAME r)
                          \<and> great_circle b r = min_distance b rs)"
    using r(1,2) by (auto simp: r(3) split: if_splits)
  have 4: "HOT_SUM_PASSENGERS_ON b = 600 \<and> min_distance b rs = 1.5 \<longrightarrow> gap_candidate rs b \<noteq> None"
    by (simp add: r(3) CANDIDATE_MIN_BOARDINGS_def MIN_DISTANCE_MILES_def)
  have 5: "HOT_SUM_PASSENGERS_ON b = 600 \<and> min_distance b rs = 0.5 \<longrightarrow> gap_candidate rs b = None"
    by (simp add: r(3) CANDIDATE_MIN_BOARDINGS_def MIN_DISTANCE_MILES_def)
  show ?thesis using False 1 3 4 5 potential_stations_map_filter [of rs bs] by blast
qed

theorem gap_candidate_criteria_witness:
  "HOT_SUM_PASSENGERS_ON \<lparr>LAT_R = 0, LON_R = 0, HOT_SUM_PASSENGERS_ON = 600,
       REP_STOP = Some ''K ST + 16TH ST'', ROUTES = ''D6''\<rparr> = 600
   \<and> min_distance \<lparr>LAT_R = 0, LON_R = 0, HOT_SUM_PASSENGERS_ON = 600,
       REP_STOP = Some ''K ST + 16TH ST'', ROUTES = ''D6''\<rparr>
       [\<lparr>STOP_ID = Text ''A01'', STATION_NAME = ''Metro Center'', RAIL_BOARDINGS = 100,
         RAIL_LAT = 0, RAIL_LON = 270 / (3956 * pi), MATCHED_STOP = ''METRO CENTER'',
         MATCH_SCORE = 1\<rparr>] = 1.5
   \<and> gap_candidate
       [\<lparr>STOP_ID = Text ''A01'', STATION_NAME = ''Metro Center'', RAIL_BOARDINGS = 100,
         RAIL_LAT = 0, RAIL_LON = 270 / (3956 * pi), MATCHED_STOP = ''METRO CENTER'',
         MATCH_SCORE = 1\<rparr>]
       \<lparr>LAT_R = 0, LON_R = 0, HOT_SUM_PASSENGERS_ON = 600,
        REP_STOP = Some ''K ST + 16TH ST'', ROUTES = ''D6''\<rparr> \<noteq> None"
proof -
  let ?b = "\<lparr>LAT_R = 0, LON_R = 0, HOT_SUM_PASSENGERS_ON = 600,
       REP_STOP = Some ''K ST + 16TH ST'', ROUTES = ''D6''\<rparr>"
  let ?r = "\<lparr>STOP_ID = Text ''A01'', STATION_NAME = ''Metro Center'', RAIL_BOARDINGS = 100,
         RAIL_LAT = 0, RAIL_LON = 270 / (3956 * pi), MATCHED_STOP = ''METRO CENTER'',
         MATCH_SCORE = 1\<rparr>"
  have "pi * 3 > 1" using pi_ge_two by linarith
  then have le: "(270::real) / (3956 * pi) \<le> 180" by (simp add: field_simps)
  have "great_circle ?b ?r = 270 / (3956 * pi) * pi / 180 * 3956"
    by (rule great_circle_equator) (use le in simp_all)
  then have m: "min_distance ?b [?r] = 1.5" by (simp add: min_distance_def)
  have h: "HOT_SUM_PASSENGERS_ON ?b = 600" by simp
  have "[?r] \<noteq> [] \<and> HOT_SUM_PASSENGERS_ON ?b = 600 \<and> min_distance ?b [?r] = 1.5
          \<longrightarrow> gap_candidate [?r] ?b \<noteq> None"
    using gap_candidate_criteria [of "[?r]" ?b "[]"] by (elim conjE)
  with h m have "gap_candidate [?r] ?b \<noteq> None" by blast
  with h m show ?thesis by blast
qed

text \<open>
  C1 as stated fails in one point: with no geocoded station the nearest-rail name of the
  candidate is not null, it is the four-letter string \<open>None\<close>.
\<close>

theorem gap_candidate_criteria_counterexample:
  "CANDIDATE_MIN_BOARDINGS \<le> 600
   \<and> gap_candidate []
       \<lparr>LAT_R = 38.9, LON_R = - 77.03, HOT_SUM_PASSENGERS_ON = 600,
        REP_STOP = Some ''K ST + 16TH ST'', ROUTES = ''D6''\<rparr>
     = Some \<lparr>Name = Some ''K ST + 16TH ST'', Lat = 38.9, Lon = - 77.03, Bus_Boardings = 600,
             Nearest_Rail = Some ''None'', Distance_Miles = None, Routes = ''D6''\<rparr>"
  by (simp add: gap_candidate_def CANDIDATE_MIN_BOARDINGS_def Let_def)


subsection \<open>Rail station coordinates\<close>

lemma token_overlap_iff: "1 \<le> token_overlap (tokens s) (tokens b) \<longleftrightarrow> share_token s b"
proof -
  have "finite (set (map lower (tokens s)) \<inter> set (map lower (tokens b)))" by simp
  then show ?thesis
    unfolding token_overlap_def share_token_def by (metis One_nat_def Suc_le_eq card_gt_0_iff)
qed

lemma best_match_step:
  "best_match_loop s (tokens s) (b # bs) (bm, br) =
     best_match_loop s (tokens s) bs
       (if b \<noteq> [] \<and> candidate_match s b \<and> br < similar s b then (Some b, similar s b)
        else (bm, br))"
  using token_overlap_iff [of s b]
  by (auto simp: Let_def candidate_match_def)

lemma candidate_match_gt: "candidate_match s b \<Longrightarrow> 0.6 < similar s b"
  by (auto simp: candidate_match_def)

lemma best_so_far_step:
  assumes inv: "best_so_far s seen st"
  shows "best_so_far s (seen @ [b])
           (if b \<noteq> [] \<and> candidate_match s b \<and> snd st < similar s b then (Some b, similar s b)
            else st)"
proof -
  from inv consider
    (none) "st = (None, 0)" "\<forall>x\<in>set seen. \<not> (x \<noteq> [] \<and> candidate_match s x)"
  | (some) pre c post where "seen = pre @ c # post" "c \<noteq> []" "candidate_match s c"
      "st = (Some c, similar s c)"
      "\<forall>x\<in>set seen. x \<noteq> [] \<and> candidate_match s x \<longrightarrow> similar s x \<le> similar s c"
      "\<forall>x\<in>set pre. x \<noteq> [] \<and> candidate_match s x \<longrightarrow> similar s x < similar s c"
    unfolding best_so_far_def by blast
  then show ?thesis
  proof cases
    case none
    show ?thesis
    proof (cases "b \<noteq> [] \<and> candidate_match s b")
      case True
      then have pos: "0 < similar s b" using candidate_match_gt [of s b] by simp
      have "seen @ [b] = seen @ b # [] \<and> b \<noteq> [] \<and> candidate_match s b
            \<and> (Some b, similar s b) = (Some b, similar s b)
            \<and> (\<forall>x\<in>set (seen @ [b]). x \<noteq> [] \<and> candidate_match s x \<longrightarrow> similar s x \<le> similar s b)
            \<and> (\<forall>x\<in>set seen. x \<noteq> [] \<and> candidate_match s x \<longrightarrow> similar s x < similar s b)"
        using True none(2) by auto
      then have "best_so_far s (seen @ [b]) (Some b, similar s b)"
        unfolding best_so_far_def by blast
      then show ?thesis using True pos none(1) by simp
    next
      case False
      then have "best_so_far s (seen @ [b]) (None, 0)"
        unfolding best_so_far_def using none(2) by auto
      then show ?thesis using False none(1) by auto
    qed
  next
    case some
    show ?thesis
    proof (cases "b \<noteq> [] \<and> candidate_match s b \<and> similar s c < similar s b")
      case True
      have "seen @ [b] = seen @ b # [] \<and> b \<noteq> [] \<and> candidate_match s b
            \<and> (Some b, similar s b) = (Some b, similar s b)
            \<and> (\<forall>x\<in>set (seen @ [b]). x \<noteq> [] \<and> candidate_match s x \<longrightarrow> similar s x \<le> similar s b)
            \<and> (\<forall>x\<in>set seen. x \<noteq> [] \<and> candidate_match s x \<longrightarrow> similar s x < similar s b)"
        using True some(5) by fastforce
      then have "best_so_far s (seen @ [b]) (Some b, similar s b)"
        unfolding best_so_far_def by blast
      then show ?thesis using True some(4) by simp
    next
      case False
      have "seen @ [b] = pre @ c # (post @ [b]) \<and> c \<noteq> [] \<and> candidate_match s c
            \<and> st = (Some c, similar s c)
            \<and> (\<forall>x\<in>set (seen @ [b]). x \<noteq> [] \<and> candidate_match s x \<longrightarrow> similar s x \<le> similar s c)
            \<and> (\<forall>x\<in>set pre. x \<noteq> [] \<and> candidate_match s x \<longrightarrow> similar s x < similar s c)"
        using False some by auto
      then have "best_so_far s (seen @ [b]) st"
        unfolding best_so_far_def by blast
      then show ?thesis using False some(4) by auto
    qed
  qed
qed

lemma best_match_loop_inv:
  "best_so_far s seen st \<Longrightarrow> best_so_far s (seen @ bs) (best_match_loop s (tokens s) bs st)"
proof (induction bs arbitrary: seen st)
  case Nil
  then show ?case by simp
next
  case (Cons b bs)
  obtain bm br where st: "st = (bm, br)" by (cases st)
  let ?st' = "if b \<noteq> [] \<and> candidate_match s b \<and> br < similar s b then (Some b, similar s b)
              else (bm, br)"
  have "best_so_far s (seen @ [b]) ?st'"
    using best_so_far_step [OF Cons.prems, of b] by (simp only: st snd_conv)
  from Cons.IH [OF this] show ?case
    unfolding st best_match_step by simp
qed

lemma best_match_loop_best: "best_so_far s names (best_match_loop s (tokens s) names (None, 0))"
  using best_match_loop_inv [of s "[]" "(None, 0)" names] by (simp add: best_so_far_def)



lemma similar_empty_both: "similar [] [] = 1"
  by (simp add: similar_eval)

lemma bus_stop_agg_names:
  "map AGG_STOP (bus_stop_agg bus_df) = group_keys (dropna (map STOP bus_df))"
  by (simp add: bus_stop_agg_def Let_def comp_def)

lemma group_keys_STOP:
  "n \<in> set (group_keys (dropna (map STOP bus_df))) \<longleftrightarrow> (\<exists>r\<in>set bus_df. STOP r = Some n)"
  by (auto simp: group_keys_def dropna_def split: option.splits) metis

lemma find_map_key:
  "n \<in> set ks \<Longrightarrow> (\<And>k. f (g k) = k) \<Longrightarrow> find (\<lambda>r. f r = n) (map g ks) = Some (g n)"
  by (induction ks) auto

lemma bus_stop_agg_find:
  assumes "r \<in> set bus_df" and "STOP r = Some n"
  shows "find (\<lambda>r. AGG_STOP r = n) (bus_stop_agg bus_df) =
           Some \<lparr> AGG_STOP = n,
                  AGG_LAT = mean (map LAT (filter (\<lambda>r. STOP r = Some n) bus_df)),
                  AGG_LON = mean (map LON (filter (\<lambda>r. STOP r = Some n) bus_df)),
                  AGG_SUM_PASSENGERS_ON =
                    sum_skipna (map SUM_PASSENGERS_ON (filter (\<lambda>r. STOP r = Some n) bus_df)) \<rparr>"
proof -
  have "n \<in> set (group_keys (dropna (map STOP bus_df)))"
    using assms group_keys_STOP by blast
  then show ?thesis
    unfolding bus_stop_agg_def Let_def
    by (rule find_map_key) simp
qed





lemma rail_locations_loop_step:
  "\<exists>new. (\<forall>rest acc. rail_locations_loop (bus_stop_agg bus_df) (row # rest) acc
                      = rail_locations_loop (bus_stop_agg bus_df) rest (acc @ new))
        \<and> (new = [] \<and> \<not> has_match bus_df row
           \<or> (\<exists>l. new = [l] \<and> has_match bus_df row
                  \<and> STOP_ID l = USAGE_STOP_ID row \<and> STATION_NAME l = USAGE_STATION_NAME row
                  \<and> RAIL_BOARDINGS l = AVG_BOARDINGS row \<and> placed_at_match bus_df l))"
proof -
  let ?s = "USAGE_STATION_NAME row"
  let ?names = "map AGG_STOP (bus_stop_agg bus_df)"
  let ?res = "best_match_loop ?s (tokens ?s) ?names (None, 0)"
  from best_match_loop_best [of ?s ?names] consider
    (none) "?res = (None, 0)" "\<forall>x\<in>set ?names. \<not> (x \<noteq> [] \<and> candidate_match ?s x)"
  | (some) pre c post where "?names = pre @ c # post" "c \<noteq> []"
      "candidate_match ?s c" "?res = (Some c, similar ?s c)"
    unfolding best_so_far_def by blast
  then show ?thesis
  proof cases
    case none
    have "\<forall>rest acc. rail_locations_loop (bus_stop_agg bus_df) (row # rest) acc
                      = rail_locations_loop (bus_stop_agg bus_df) rest (acc @ [])"
      using none(1) by (simp add: Let_def)
    moreover have "\<not> has_match bus_df row" using none(2) by (simp add: has_match_def)
    ultimately show ?thesis by blast
  next
    case some
    have "c \<in> set ?names" using some(1) by simp
    then obtain r where r: "r \<in> set bus_df" "STOP r = Some c"
      unfolding bus_stop_agg_names group_keys_STOP by blast
    let ?l = "\<lparr> STOP_ID = USAGE_STOP_ID row, STATION_NAME = ?s,
                 RAIL_BOARDINGS = AVG_BOARDINGS row,
                 RAIL_LAT = mean (map LAT (filter (\<lambda>r. STOP r = Some c) bus_df)),
                 RAIL_LON = mean (map LON (filter (\<lambda>r. STOP r = Some c) bus_df)),
                 MATCHED_STOP = c, MATCH_SCORE = similar ?s c \<rparr>"
    have "\<forall>rest acc. rail_locations_loop (bus_stop_agg bus_df) (row # rest) acc
                      = rail_locations_loop (bus_stop_agg bus_df) rest (acc @ [?l])"
      using some(2,4) by (simp add: Let_def bus_stop_agg_find [OF r])
    moreover have "has_match bus_df row"
      unfolding has_match_def using \<open>c \<in> set ?names\<close> some(2,3) by blast
    moreover have "placed_at_match bus_df ?l"
      unfolding placed_at_match_def using r some(2,3) by auto
    ultimately show ?thesis by fastforce
  qed
qed

lemma rail_locations_loop_result:
  "\<exists>new. rail_locations_loop (bus_stop_agg bus_df) rest acc = Inr (acc @ new)
        \<and> map (\<lambda>l. (STOP_ID l, STATION_NAME l, RAIL_BOARDINGS l)) new
            = map (\<lambda>r. (USAGE_STOP_ID r, USAGE_STATION_NAME r, AVG_BOARDINGS r))
                (filter (has_match bus_df) rest)
        \<and> (\<forall>l\<in>set new. placed_at_match bus_df l)"
proof (induction rest arbitrary: acc)
  case Nil
  then show ?case by simp
next
  case (Cons row rest)
  from rail_locations_loop_step [of bus_df row] obtain new where
    step: "\<And>rest acc. rail_locations_loop (bus_stop_agg bus_df) (row # rest) acc
                      = rail_locations_loop (bus_stop_agg bus_df) rest (acc @ new)"
    and new: "new = [] \<and> \<not> has_match bus_df row
           \<or> (\<exists>l. new = [l] \<and> has_match bus_df row
                  \<and> STOP_ID l = USAGE_STOP_ID row \<and> STATION_NAME l = USAGE_STATION_NAME row
                  \<and> RAIL_BOARDINGS l = AVG_BOARDINGS row \<and> placed_at_match bus_df l)"
    by blast
  from Cons.IH [of "acc @ new"] obtain more where
    more: "rail_locations_loop (bus_stop_agg bus_df) rest (acc @ new) = Inr ((acc @ new) @ more)"
      "map (\<lambda>l. (STOP_ID l, STATION_NAME l, RAIL_BOARDINGS l)) more
            = map (\<lambda>r. (USAGE_STOP_ID r, USAGE_STATION_NAME r, AVG_BOARDINGS r))
                (filter (has_match bus_df) rest)"
      "\<forall>l\<in>set more. placed_at_match bus_df l"
    by blast
  have "rail_locations_loop (bus_stop_agg bus_df) (row # rest) acc = Inr (acc @ (new @ more))"
    unfolding step more(1) by simp
  moreover have "map (\<lambda>l. (STOP_ID l, STATION_NAME l, RAIL_BOARDINGS l)) (new @ more)
            = map (\<lambda>r. (USAGE_STOP_ID r, USAGE_STATION_NAME r, AVG_BOARDINGS r))
                (filter (has_match bus_df) (row # rest))"
    using new more(2) by auto
  moreover have "\<forall>l\<in>set (new @ more). placed_at_match bus_df l"
    using new more(3) by auto
  ultimately show ?case by blast
qed

lemma potential_stations_nearest:
  assumes "c \<in> set (potential_stations locs hotspots)"
  shows "(locs = [] \<and> Nearest_Rail c = Some ''None'' \<and> Distance_Miles c = None)
         \<or> (\<exists>l\<in>set locs. Nearest_Rail c = Some (STATION_NAME l))"
proof -
  from assms obtain b where b: "gap_candidate locs b = Some c"
    unfolding potential_stations_map_filter by (auto simp: List.map_filter_def)
  show ?thesis
  proof (cases "locs = []")
    case True
    with b show ?thesis by (auto simp: gap_candidate_empty split: if_splits)
  next
    case False
    from gap_candidate_nonempty [OF False, of b] b show ?thesis
      by (auto split: if_splits)
  qed
qed

text \<open>
  Claim C3. The loop over the stations never fails and returns one entry for each station
  that has a candidate match among the bus stop names, in the order of the stations, with the
  station's id, name and average boardings: a station without a candidate has no entry. Every
  entry carries a bus stop name of the table that is a candidate match of its station name,
  the similarity of the two as score, and as latitude and longitude the means over the bus
  rows of that stop. Downstream, the nearest station named by a gap candidate is one of these
  entries, and with no entry at all it is the string \<open>None\<close> with a null distance.
\<close>

theorem rail_locations_never_guessed:
  "\<exists>locs. rail_locations bus_df rail_usage_rows = Inr locs
     \<and> map (\<lambda>l. (STOP_ID l, STATION_NAME l, RAIL_BOARDINGS l)) locs
         = map (\<lambda>r. (USAGE_STOP_ID r, USAGE_STATION_NAME r, AVG_BOARDINGS r))
             (filter (has_match bus_df) rail_usage_rows)
     \<and> (\<forall>l\<in>set locs. placed_at_match bus_df l)
     \<and> (\<forall>c\<in>set (potential_stations locs hotspots).
           (locs = [] \<and> Nearest_Rail c = Some ''None'' \<and> Distance_Miles c = None)
           \<or> (\<exists>l\<in>set locs. Nearest_Rail c = Some (STATION_NAME l)))"
proof -
  from rail_locations_loop_result [of bus_df rail_usage_rows "[]"] obtain locs where
    locs: "rail_locations bus_df rail_usage_rows = Inr locs"
      "map (\<lambda>l. (STOP_ID l, STATION_NAME l, RAIL_BOARDINGS l)) locs
         = map (\<lambda>r. (USAGE_STOP_ID r, USAGE_STATION_NAME r, AVG_BOARDINGS r))
             (filter (has_match bus_df) rail_usage_rows)"
      "\<forall>l\<in>set locs. placed_at_match bus_df l"
    unfolding rail_locations_def by auto
  have "\<forall>c\<in>set (potential_stations locs hotspots).
           (locs = [] \<and> Nearest_Rail c = Some ''None'' \<and> Distance_Miles c = None)
           \<or> (\<exists>l\<in>set locs. Nearest_Rail c = Some (STATION_NAME l))"
    using potential_stations_nearest [of _ locs hotspots] by blast
  with locs show ?thesis by blast
qed

lemma example_agg: "bus_stop_agg example_bus_df =
   [\<lparr> AGG_STOP = ''K ST'', AGG_LAT = 1, AGG_LON = 1, AGG_SUM_PASSENGERS_ON = 600 \<rparr>,
    \<lparr> AGG_STOP = ''TAKOMA'', AGG_LAT = 0, AGG_LON = 270 / (3956 * pi),
       AGG_SUM_PASSENGERS_ON = 100 \<rparr>]"
proof -
  have "group_keys (dropna (map STOP example_bus_df)) = [''K ST'', ''TAKOMA'']"
    by (simp add: example_bus_df_def group_keys_def dropna_def)
  then show ?thesis
    unfolding bus_stop_agg_def
    by (simp add: example_bus_df_def mean_def sum_skipna_def Let_def)
qed

lemma example_similar:
  "similar ''Takoma'' ''K ST'' = 1 / 5" "similar ''Takoma'' ''TAKOMA'' = 1"
  "similar ''Fort Totten'' ''K ST'' = 2 / 15" "similar ''Fort Totten'' ''TAKOMA'' = 2 / 17"
  by (simp_all add: similar_eval)

lemma example_rail_locations:
  "rail_locations example_bus_df example_rail_usage = Inr [example_location]"
  unfolding rail_locations_def example_agg
  by (simp add: example_rail_usage_def example_location_def best_match_step candidate_match_def
        example_similar Let_def del: best_match_loop.simps(2))

lemma example_has_match:
  "filter (has_match example_bus_df) example_rail_usage = [example_rail_usage ! 0]"
  unfolding has_match_def example_agg
  by (simp add: example_rail_usage_def candidate_match_def example_similar)

lemma example_distance: "min_distance example_hotspot [example_location] = 1.5"
proof -
  have "pi * 3 > 1" using pi_ge_two by linarith
  then have le: "(270::real) / (3956 * pi) \<le> 180" by (simp add: field_simps)
  have "great_circle example_hotspot example_location = 270 / (3956 * pi) * pi / 180 * 3956"
    by (rule great_circle_equator) (use le in \<open>simp_all add: example_hotspot_def example_location_def\<close>)
  then show ?thesis by (simp add: min_distance_def)
qed

lemma example_potential:
  "map Name (potential_stations [example_location] [example_hotspot]) = [Some ''K ST'']"
proof -
  have boardings: "HOT_SUM_PASSENGERS_ON example_hotspot = 600"
    by (simp add: example_hotspot_def)
  have cond: "CANDIDATE_MIN_BOARDINGS \<le> HOT_SUM_PASSENGERS_ON example_hotspot
              \<and> MIN_DISTANCE_MILES < min_distance example_hotspot [example_location]"
    using boardings
    by (simp add: example_distance CANDIDATE_MIN_BOARDINGS_def MIN_DISTANCE_MILES_def)
  have ne: "[example_location] \<noteq> []" by simp
  from gap_candidate_nonempty [OF ne, of example_hotspot] cond
  have "\<exists>c. gap_candidate [example_location] example_hotspot = Some c
                 \<and> Name c = REP_STOP example_hotspot"
    by (elim bexE conjE) simp
  then obtain c where "gap_candidate [example_location] example_hotspot = Some c"
    "Name c = Some ''K ST''"
    by (auto simp: example_hotspot_def)
  then show ?thesis by simp
qed

theorem rail_locations_never_guessed_witness:
  "rail_locations example_bus_df example_rail_usage = Inr [example_location]
   \<and> filter (has_match example_bus_df) example_rail_usage = [example_rail_usage ! 0]
   \<and> placed_at_match example_bus_df example_location
   \<and> map Name (potential_stations [example_location] [example_hotspot]) = [Some ''K ST'']
   \<and> map Nearest_Rail (potential_stations [example_location] [example_hotspot])
       = [Some ''Takoma'']"
proof -
  from rail_locations_never_guessed [of example_bus_df example_rail_usage "[example_hotspot]"]
  have "placed_at_match example_bus_df example_location
        \<and> (\<forall>c\<in>set (potential_stations [example_location] [example_hotspot]).
             ([example_location] = [] \<and> Nearest_Rail c = Some ''None'' \<and> Distance_Miles c = None)
             \<or> (\<exists>l\<in>set [example_location]. Nearest_Rail c = Some (STATION_NAME l)))"
    unfolding example_rail_locations by auto
  moreover have "STATION_NAME example_location = ''Takoma''" by (simp add: example_location_def)
  ultimately have "placed_at_match example_bus_df example_location
        \<and> (\<forall>c\<in>set (potential_stations [example_location] [example_hotspot]).
             Nearest_Rail c = Some ''Takoma'')"
    by auto
  moreover obtain c where "potential_stations [example_location] [example_hotspot] = [c]"
    using example_potential by auto
  ultimately have "placed_at_match example_bus_df example_location
        \<and> map Nearest_Rail (potential_stations [example_location] [example_hotspot])
            = [Some ''Takoma'']"
    by simp
  with example_rail_locations example_has_match example_potential show ?thesis by blast
qed

subsection \<open>The candidate table\<close>

lemma descending_sort_reversing: "descending_sort reversing_sort"
proof -
  have "sorted_wrt (\<lambda>x y. Bus_Boardings y \<le> Bus_Boardings x) (reversing_sort xs)" for xs
  proof -
    have "sorted (map Bus_Boardings (sort_key Bus_Boardings xs))" by simp
    then have "sorted_wrt (\<lambda>x y. Bus_Boardings x \<le> Bus_Boardings y) (sort_key Bus_Boardings xs)"
      by (simp add: sorted_map)
    then show ?thesis by (simp add: reversing_sort_def sorted_wrt_rev)
  qed
  then show ?thesis by (simp add: descending_sort_def reversing_sort_def)
qed

lemma potential_df_take:
  assumes "descending_sort srt"
  shows "potential_df srt rs bs = take 50 (srt (potential_stations rs bs))"
proof (cases "potential_stations rs bs = []")
  case True
  have "mset (srt []) = mset ([] :: candidate list)"
    using assms unfolding descending_sort_def by blast
  then have "srt [] = []" by simp
  with True show ?thesis by (simp add: potential_df_def)
next
  case False
  then show ?thesis by (simp add: potential_df_def)
qed

text \<open>
  Claim C8, as the code has it. Whatever rearrangement in descending order of boardings the
  library sort returns, the candidate table is sorted by boardings descending and holds the
  first 50 entries of the sorted qualifying hotspots: every qualifying hotspot when there are
  at most 50, and otherwise 50 of them such that none left out has more boardings than one
  kept. Nothing is said about the order of equal boardings.
\<close>

theorem potential_df_sorted_capped:
  assumes "descending_sort srt"
  shows "sorted_wrt (\<lambda>x y. Bus_Boardings y \<le> Bus_Boardings x) (potential_df srt rs bs)
    \<and> length (potential_df srt rs bs) = min 50 (length (potential_stations rs bs))
    \<and> mset (potential_df srt rs bs) \<subseteq># mset (potential_stations rs bs)
    \<and> (\<forall>x. x \<in># mset (potential_stations rs bs) - mset (potential_df srt rs bs) \<longrightarrow>
          (\<forall>y\<in>set (potential_df srt rs bs). Bus_Boardings x \<le> Bus_Boardings y))
    \<and> (length (potential_stations rs bs) \<le> 50 \<longrightarrow>
          mset (potential_df srt rs bs) = mset (potential_stations rs bs))"
proof -
  define ps where "ps = potential_stations rs bs"
  define ys where "ys = srt ps"
  have m: "mset ys = mset ps" and s: "sorted_wrt (\<lambda>x y. Bus_Boardings y \<le> Bus_Boardings x) ys"
    using assms unfolding descending_sort_def ys_def by blast+
  have df: "potential_df srt rs bs = take 50 ys"
    unfolding ys_def ps_def by (rule potential_df_take [OF assms])
  have len: "length ys = length ps" using m by (rule mset_eq_length)
  have split: "ys = take 50 ys @ drop 50 ys" by simp
  have s': "sorted_wrt (\<lambda>x y. Bus_Boardings y \<le> Bus_Boardings x) (take 50 ys @ drop 50 ys)"
    using s by simp
  have 1: "sorted_wrt (\<lambda>x y. Bus_Boardings y \<le> Bus_Boardings x) (take 50 ys)"
    using s' unfolding sorted_wrt_append by blast
  have 2: "length (take 50 ys) = min 50 (length ps)" using len by simp
  have msplit: "mset ps = mset (take 50 ys) + mset (drop 50 ys)"
    using m split by (metis mset_append)
  have 3: "mset (take 50 ys) \<subseteq># mset ps" unfolding msplit by simp
  have d: "mset ps - mset (take 50 ys) = mset (drop 50 ys)" unfolding msplit by simp
  have 4: "\<forall>x. x \<in># mset ps - mset (take 50 ys) \<longrightarrow>
          (\<forall>y\<in>set (take 50 ys). Bus_Boardings x \<le> Bus_Boardings y)"
    unfolding d using s' unfolding sorted_wrt_append by auto
  have 5: "length ps \<le> 50 \<longrightarrow> mset (take 50 ys) = mset ps"
    using len m by simp
  show ?thesis using 1 2 3 4 5 unfolding df ps_def by blast
qed

lemma rint_of_int: "rint (of_int z) = z"
  by (simp add: rint_def)

lemma py_round_exact:
  assumes "x * 10 ^ d = of_int z"
  shows "py_round x d = x"
proof -
  have "py_round x d = of_int z / 10 ^ d" by (simp add: py_round_def assms rint_of_int)
  also have "\<dots> = x" using assms [symmetric] by simp
  finally show ?thesis .
qed

lemma round_key_grid: "round_key (grid_row n) = (38 + real n / 10000, - 77)"
proof -
  have "(38 + real n / 10000) * 10 ^ 4 = of_int (380000 + int n)" by simp
  then have 1: "py_round (38 + real n / 10000) 4 = 38 + real n / 10000" by (rule py_round_exact)
  have "(- 77 :: real) * 10 ^ 4 = of_int (- 770000)" by simp
  then have 2: "py_round (- 77) 4 = - 77" by (rule py_round_exact)
  show ?thesis by (simp add: round_key_def grid_row_def HOTSPOT_ROUND_DECIMALS_def 1 2)
qed

lemma round_key_grid_eq: "round_key (grid_row m) = round_key (grid_row n) \<longleftrightarrow> m = n"
  by (simp add: round_key_grid)

lemma filter_eq_upt: "n < N \<Longrightarrow> filter (\<lambda>m. m = n) [0 ..< N] = [n]"
proof (induction N)
  case 0
  then show ?case by simp
next
  case (Suc N)
  show ?case
  proof (cases "n = N")
    case True
    then have "filter (\<lambda>m. m = n) [0 ..< N] = []" by (auto simp: filter_empty_conv)
    with True show ?thesis by simp
  next
    case False
    with Suc show ?thesis by simp
  qed
qed

lemma cell_rows_grid:
  assumes "n < N"
  shows "cell_rows (grid_rows N) (round_key (grid_row n)) = [grid_row n]"
proof -
  have "cell_rows (grid_rows N) (round_key (grid_row n))
      = map grid_row (filter (\<lambda>m. m = n) [0 ..< N])"
    by (simp add: cell_rows_def grid_rows_def filter_map comp_def round_key_grid_eq)
  then show ?thesis by (simp add: filter_eq_upt [OF assms])
qed

lemma agg_cell_grid:
  assumes "n < N"
  shows "agg_cell (grid_rows N) (round_key (grid_row n))
    = \<lparr> LAT_R = 38 + real n / 10000, LON_R = - 77, HOT_SUM_PASSENGERS_ON = 600,
        REP_STOP = Some ''K ST'', ROUTES = ''D6'' \<rparr>"
proof -
  have k: "fst (round_key (grid_row n)) = 38 + real n / 10000" "snd (round_key (grid_row n)) = - 77"
    by (simp_all add: round_key_grid)
  show ?thesis
    unfolding agg_cell_def Let_def cell_rows_grid [OF assms] k
    by (simp add: grid_row_def sum_skipna_def rep_stop_def routes_label_def
          unique_def astype_str_def mode_values_def dropna_def)
qed

lemma group_keys_grid:
  "group_keys (map round_key (grid_rows N)) = map (\<lambda>n. round_key (grid_row n)) [0 ..< N]"
proof -
  let ?ks = "map (\<lambda>n. round_key (grid_row n)) [0 ..< N]"
  have d: "distinct ?ks" by (simp add: distinct_map inj_on_def round_key_grid_eq)
  have s: "sorted ?ks"
    by (auto simp: sorted_iff_nth_mono round_key_grid)
  have "group_keys ?ks = ?ks"
    unfolding group_keys_def by (simp add: distinct_remdups_id [OF d] sorted_sort_id [OF s])
  then show ?thesis by (simp add: grid_rows_def comp_def)
qed


lemma agg_grid:
  "agg (grid_rows N)
    = map (\<lambda>n. \<lparr> LAT_R = 38 + real n / 10000, LON_R = - 77, HOT_SUM_PASSENGERS_ON = 600,
                   REP_STOP = Some ''K ST'', ROUTES = ''D6'' \<rparr>) [0 ..< N]"
  unfolding agg_def group_keys_grid by (simp add: agg_cell_grid)

lemma bus_hotspots_grid:
  "bus_hotspots (grid_rows N)
    = map (\<lambda>n. \<lparr> LAT_R = 38 + real n / 10000, LON_R = - 77, HOT_SUM_PASSENGERS_ON = 600,
                   REP_STOP = Some ''K ST'', ROUTES = ''D6'' \<rparr>) [0 ..< N]"
  unfolding bus_hotspots_def agg_grid by (simp add: HOTSPOT_MIN_BOARDINGS_def)

lemma potential_stations_grid:
  "potential_stations [] (bus_hotspots (grid_rows N))
    = map (\<lambda>n. \<lparr> Name = Some ''K ST'', Lat = 38 + real n / 10000, Lon = - 77,
                   Bus_Boardings = 600, Nearest_Rail = Some ''None'', Distance_Miles = None,
                   Routes = ''D6'' \<rparr>) [0 ..< N]"
  unfolding bus_hotspots_grid potential_stations_map_filter
  by (simp add: List.map_filter_def gap_candidate_empty CANDIDATE_MIN_BOARDINGS_def comp_def)

theorem potential_df_sorted_capped_witness:
  "descending_sort reversing_sort
   \<and> sorted_wrt (\<lambda>x y. Bus_Boardings y \<le> Bus_Boardings x)
       (potential_df reversing_sort [] (bus_hotspots (grid_rows 3)))
   \<and> length (potential_df reversing_sort [] (bus_hotspots (grid_rows 3))) = 3"
proof -
  have "length (potential_df reversing_sort [] (bus_hotspots (grid_rows 3)))
      = min 50 (length (potential_stations [] (bus_hotspots (grid_rows 3))))"
    using potential_df_sorted_capped [OF descending_sort_reversing] by blast
  then have "length (potential_df reversing_sort [] (bus_hotspots (grid_rows 3))) = 3"
    unfolding potential_stations_grid by simp
  then show ?thesis
    using potential_df_sorted_capped [OF descending_sort_reversing] descending_sort_reversing
    by blast
qed

text \<open>
  C8 as stated fails twice. The cap is applied inside the pipeline: of 51 hotspots in 51
  cells, all qualifying, 50 reach the candidate table. And the order of ties is not fixed
  by a sort that is only known to be descending: two hotspots of 600 boardings each come out
  in reverse hotspot order under \<open>reversing_sort\<close>.
\<close>

theorem potential_df_sorted_capped_counterexample:
  "length (potential_stations [] (bus_hotspots (grid_rows 51))) = 51
   \<and> length (potential_df reversing_sort [] (bus_hotspots (grid_rows 51))) = 50
   \<and> descending_sort reversing_sort
   \<and> map Lat (potential_stations [] (bus_hotspots (grid_rows 2))) = [38, 38.0001]
   \<and> map Bus_Boardings (potential_stations [] (bus_hotspots (grid_rows 2))) = [600, 600]
   \<and> map Lat (potential_df reversing_sort [] (bus_hotspots (grid_rows 2))) = [38.0001, 38]"
proof -
  have 1: "length (potential_stations [] (bus_hotspots (grid_rows 51))) = 51"
    unfolding potential_stations_grid by simp
  have 2: "length (potential_df reversing_sort [] (bus_hotspots (grid_rows 51))) = 50"
    unfolding potential_df_take [OF descending_sort_reversing] potential_stations_grid
    by (simp add: reversing_sort_def)
  have u: "[0 ..< 2] = [0, Suc 0]" by (simp add: upt_rec)
  have 3: "map Lat (potential_stations [] (bus_hotspots (grid_rows 2))) = [38, 38.0001]"
    unfolding potential_stations_grid u by simp
  have 4: "map Bus_Boardings (potential_stations [] (bus_hotspots (grid_rows 2))) = [600, 600]"
    unfolding potential_stations_grid u by simp
  have 5: "map Lat (potential_df reversing_sort [] (bus_hotspots (grid_rows 2))) = [38.0001, 38]"
    unfolding potential_df_take [OF descending_sort_reversing] potential_stations_grid u
    by (simp add: reversing_sort_def)
  show ?thesis using 1 2 3 4 5 descending_sort_reversing by blast
qed

end
